theory Spec2Isabelle
  imports Main "HOL-Library.Word" "HOL-Library.Multiset"
begin

section \<open>Machine integers and constants\<close>

text \<open>
  The simulator computes with C \<^verbatim>\<open>int\<close>. It is modelled as a 32-bit word read in two's
  complement: \<open>+\<close> and \<open>-\<close> wrap around (the arithmetic the overflow check of
  \<^verbatim>\<open>get_next_move\<close> is written for), comparisons are the signed ones (\<open><s\<close>, \<open>\<le>s\<close>),
  \<open>sint\<close> gives the integer value.
\<close>

type_synonym int32 = "32 word"

definition INT_MAX :: int32 where
  "INT_MAX = 2147483647"

definition INITIAL_TIME :: int32 where
  "INITIAL_TIME = 0"

definition INVALID_MOVE :: int32 where
  "INVALID_MOVE = - 1"

text \<open>The macros \<^verbatim>\<open>MAX(a, b)\<close> = \<^verbatim>\<open>((a) > (b)) ? (a) : (b)\<close> and \<^verbatim>\<open>MIN(a, b)\<close> of GLib.\<close>

definition MAX' :: "int32 \<Rightarrow> int32 \<Rightarrow> int32" where
  "MAX' a b = (if b <s a then a else b)"

definition MIN' :: "int32 \<Rightarrow> int32 \<Rightarrow> int32" where
  "MIN' a b = (if a <s b then a else b)"

datatype state_code = READY_STATE | RUNNING_STATE | WAITING_STATE | TERMINATED_STATE | NEW_STATE

datatype move =
  NEW_TO_READY | RUNNING_TO_READY | WAITING_TO_READY
  | RUNNING_TO_TERMINATED | RUNNING_TO_WAITING | READY_TO_RUNNING

datatype sort_alg = FCFS_SORT | SJF_SORT | SRTF_SORT

datatype output_file = FCFS_OUTPUT | SJF_OUTPUT | SRTF_OUTPUT

text \<open>
  A failed \<^verbatim>\<open>assert\<close> and the dereference of a \<^verbatim>\<open>NULL\<close> pointer end the program; a function
  that can do either returns \<open>Inl\<close> of the error, and \<open>ebind\<close> passes the error on.
\<close>

datatype error = AssertionFailed | NullDereference

definition ebind :: "error + 'a \<Rightarrow> ('a \<Rightarrow> error + 'b) \<Rightarrow> error + 'b" where
  "ebind m f = (case m of Inl e \<Rightarrow> Inl e | Inr x \<Rightarrow> f x)"

section \<open>Processes\<close>

text \<open>\<^verbatim>\<open>struct process\<close>. The field \<^verbatim>\<open>total\<close> is called \<open>total'\<close> here.\<close>

record Process =
  pid :: int32
  start :: int32
  total' :: int32
  iofreq :: int32
  iodur :: int32
  remaining :: int32
  last_start :: int32
  last_io_start :: int32
  rr :: int32

text \<open>The three comparators; the result is a \<^verbatim>\<open>gint\<close>, the difference of two fields.\<close>

definition sort_fcfs :: "Process \<Rightarrow> Process \<Rightarrow> int32" where
  "sort_fcfs ap bp = start ap - start bp"

definition sort_sjf :: "Process \<Rightarrow> Process \<Rightarrow> int32" where
  "sort_sjf ap bp = total' ap - total' bp"

definition sort_srtf :: "Process \<Rightarrow> Process \<Rightarrow> int32" where
  "sort_srtf ap bp = remaining ap - remaining bp"

text \<open>
  \<^verbatim>\<open>process_new\<close>. The first argument is what \<^verbatim>\<open>malloc\<close> returned: \<open>None\<close> for
  \<^verbatim>\<open>NULL\<close> (the assertion fails), otherwise a block of indeterminate content, of which
  \<^verbatim>\<open>last_start\<close> and \<^verbatim>\<open>last_io_start\<close> are left as they were.
\<close>

definition process_new ::
  "Process option \<Rightarrow> int32 \<Rightarrow> int32 \<Rightarrow> int32 \<Rightarrow> int32 \<Rightarrow> int32 \<Rightarrow> int32 \<Rightarrow> error + Process" where
  "process_new m pid' start' total'' iofreq' iodur' rr' =
     (case m of
        None \<Rightarrow> Inl AssertionFailed
      | Some p \<Rightarrow>
          Inr (p\<lparr>pid := pid', start := start', total' := total'', iofreq := iofreq',
                 iodur := iodur', remaining := total'', rr := rr'\<rparr>))"

text \<open>
  The loop of \<^verbatim>\<open>parse_file\<close> over the records that \<^verbatim>\<open>fscanf\<close> read, each paired with
  the result of the \<^verbatim>\<open>malloc\<close> of its iteration. \<^verbatim>\<open>g_queue_push_head\<close> is \<open>#\<close>.
\<close>

type_synonym input_line = "int32 \<times> int32 \<times> int32 \<times> int32 \<times> int32 \<times> int32"

fun parse_file :: "(Process option \<times> input_line) list \<Rightarrow> Process list \<Rightarrow> error + Process list" where
  "parse_file [] queue = Inr queue"
| "parse_file ((m, (pid', start', total'', iofreq', iodur', rr')) # rest) queue =
     (let iofreq' = (if iofreq' \<le>s 0 then INT_MAX else iofreq');
          iodur' = (if iodur' \<le>s 0 then INT_MAX else iodur');
          rr' = (if rr' \<le>s 0 then INT_MAX else rr');
          total'' = (if total'' <s 0 then 0 else total'');
          start' = (if start' <s 0 then 0 else start')
      in ebind (process_new m pid' start' total'' iofreq' iodur' rr')
           (\<lambda>p. parse_file rest (p # queue)))"

section \<open>Queues\<close>

text \<open>
  A \<^verbatim>\<open>GQueue\<close> of processes is the list of its elements, head first. Peeking at an empty
  queue gives \<^verbatim>\<open>NULL\<close>, and the accessors dereference what they peeked.
\<close>

definition g_queue_is_empty :: "'a list \<Rightarrow> bool" where
  "g_queue_is_empty q = (q = [])"

definition g_queue_peek_head :: "'a list \<Rightarrow> 'a option" where
  "g_queue_peek_head q = (case q of [] \<Rightarrow> None | p # _ \<Rightarrow> Some p)"

definition g_queue_peek_tail :: "'a list \<Rightarrow> 'a option" where
  "g_queue_peek_tail q = (if q = [] then None else Some (last q))"

text \<open>\<open>field_of m f\<close> reads the field \<open>f\<close> through the pointer \<open>m\<close>.\<close>

definition field_of :: "Process option \<Rightarrow> (Process \<Rightarrow> int32) \<Rightarrow> error + int32" where
  "field_of m f = (case m of None \<Rightarrow> Inl NullDereference | Some p \<Rightarrow> Inr (f p))"

definition get_head_start_val :: "Process list \<Rightarrow> error + int32" where
  "get_head_start_val q = field_of (g_queue_peek_head q) start"

definition get_tail_pid :: "Process list \<Rightarrow> error + int32" where
  "get_tail_pid q = field_of (g_queue_peek_tail q) pid"

definition get_head_iodur :: "Process list \<Rightarrow> error + int32" where
  "get_head_iodur q = field_of (g_queue_peek_head q) iodur"

definition get_head_iofreq_val :: "Process list \<Rightarrow> error + int32" where
  "get_head_iofreq_val q = field_of (g_queue_peek_head q) iofreq"

definition get_tail_iofreq_val :: "Process list \<Rightarrow> error + int32" where
  "get_tail_iofreq_val q = field_of (g_queue_peek_tail q) iofreq"

definition get_tail_remaining_time :: "Process list \<Rightarrow> error + int32" where
  "get_tail_remaining_time q = field_of (g_queue_peek_tail q) remaining"

definition get_head_remaining_time :: "Process list \<Rightarrow> error + int32" where
  "get_head_remaining_time q = field_of (g_queue_peek_head q) remaining"

definition get_head_rr_freq :: "Process list \<Rightarrow> error + int32" where
  "get_head_rr_freq q = field_of (g_queue_peek_head q) rr"

definition get_tail_rr_freq :: "Process list \<Rightarrow> error + int32" where
  "get_tail_rr_freq q = field_of (g_queue_peek_tail q) rr"

definition get_head_last_start :: "Process list \<Rightarrow> error + int32" where
  "get_head_last_start q = field_of (g_queue_peek_head q) last_start"

definition get_head_last_io_start :: "Process list \<Rightarrow> error + int32" where
  "get_head_last_io_start q = field_of (g_queue_peek_head q) last_io_start"

definition get_next_io_time :: "Process list \<Rightarrow> int32 \<Rightarrow> error + int32" where
  "get_next_io_time q current_time =
     ebind (get_head_last_start q) (\<lambda>a. ebind (get_head_iofreq_val q) (\<lambda>b. Inr (a + b)))"

text \<open>The setters write through the peeked pointer: the element is updated in place.\<close>

definition set_tail_remaining_time :: "Process list \<Rightarrow> int32 \<Rightarrow> error + Process list" where
  "set_tail_remaining_time q val =
     (case g_queue_peek_tail q of
        None \<Rightarrow> Inl NullDereference
      | Some proc \<Rightarrow> Inr (butlast q @ [proc\<lparr>remaining := val\<rparr>]))"

definition set_tail_io_start :: "Process list \<Rightarrow> int32 \<Rightarrow> error + Process list" where
  "set_tail_io_start q val =
     (case g_queue_peek_tail q of
        None \<Rightarrow> Inl NullDereference
      | Some proc \<Rightarrow> Inr (butlast q @ [proc\<lparr>last_io_start := val\<rparr>]))"

definition set_head_last_start :: "Process list \<Rightarrow> int32 \<Rightarrow> error + Process list" where
  "set_head_last_start q val =
     (case g_queue_peek_head q of
        None \<Rightarrow> Inl NullDereference
      | Some proc \<Rightarrow> Inr (proc\<lparr>last_start := val\<rparr> # tl q))"

subsection \<open>Sorting a queue\<close>

text \<open>
  \<^verbatim>\<open>g_queue_sort\<close> belongs to GLib, not to the simulator. It is the merge sort of
  \<^verbatim>\<open>g_list_sort_with_data\<close> of GLib 2.34, the release the simulator names: the list is
  cut after its first \<open>n div 2\<close> elements, both parts are sorted, and the merge takes from
  the left part while the comparator's result is not positive (so the sort is stable).
\<close>

fun g_list_sort_merge :: "'a list \<Rightarrow> 'a list \<Rightarrow> ('a \<Rightarrow> 'a \<Rightarrow> int32) \<Rightarrow> 'a list" where
  "g_list_sort_merge [] l2 compare_func = l2"
| "g_list_sort_merge (a # l1) [] compare_func = a # l1"
| "g_list_sort_merge (a # l1) (b # l2) compare_func =
     (if compare_func a b \<le>s 0
      then a # g_list_sort_merge l1 (b # l2) compare_func
      else b # g_list_sort_merge (a # l1) l2 compare_func)"

function g_list_sort_real :: "'a list \<Rightarrow> ('a \<Rightarrow> 'a \<Rightarrow> int32) \<Rightarrow> 'a list" where
  "g_list_sort_real list compare_func =
     (if length list \<le> 1 then list
      else g_list_sort_merge
             (g_list_sort_real (take (length list div 2) list) compare_func)
             (g_list_sort_real (drop (length list div 2) list) compare_func)
             compare_func)"
  by pat_completeness auto
termination
  by (relation "measure (\<lambda>(l, c). length l)") auto

declare g_list_sort_real.simps [simp del]

definition g_queue_sort :: "'a list \<Rightarrow> ('a \<Rightarrow> 'a \<Rightarrow> int32) \<Rightarrow> 'a list" where
  "g_queue_sort q compare_func = g_list_sort_real q compare_func"

section \<open>The state of a simulation\<close>

text \<open>
  The five queues that \<^verbatim>\<open>main\<close> owns, and what has been appended to the result files:
  each \<^verbatim>\<open>write_update\<close> adds one line (time, pid, old state, new state) to one file.
  A \<^verbatim>\<open>GQueue *\<close> argument is the name of one of the five queues.
\<close>

type_synonym update_line = "int32 \<times> int32 \<times> state_code \<times> state_code"

record sim =
  all :: "Process list"
  ready :: "Process list"
  running :: "Process list"
  waiting :: "Process list"
  terminated :: "Process list"
  written :: "(output_file \<times> update_line) list"

datatype queue_ptr = P_all | P_ready | P_running | P_waiting | P_terminated

fun deref :: "sim \<Rightarrow> queue_ptr \<Rightarrow> Process list" where
  "deref qs P_all = all qs"
| "deref qs P_ready = ready qs"
| "deref qs P_running = running qs"
| "deref qs P_waiting = waiting qs"
| "deref qs P_terminated = terminated qs"

fun assign :: "sim \<Rightarrow> queue_ptr \<Rightarrow> Process list \<Rightarrow> sim" where
  "assign qs P_all q = qs\<lparr>all := q\<rparr>"
| "assign qs P_ready q = qs\<lparr>ready := q\<rparr>"
| "assign qs P_running q = qs\<lparr>running := q\<rparr>"
| "assign qs P_waiting q = qs\<lparr>waiting := q\<rparr>"
| "assign qs P_terminated q = qs\<lparr>terminated := q\<rparr>"

definition write_update ::
  "sim \<Rightarrow> output_file \<Rightarrow> int32 \<Rightarrow> int32 \<Rightarrow> state_code \<Rightarrow> state_code \<Rightarrow> sim" where
  "write_update qs filename tot pid' old new =
     qs\<lparr>written := written qs @ [(filename, (tot, pid', old, new))]\<rparr>"

text \<open>\<^verbatim>\<open>move_process\<close>: the head of \<open>from\<close> becomes the tail of \<open>to\<close>.\<close>

definition move_process :: "sim \<Rightarrow> queue_ptr \<Rightarrow> queue_ptr \<Rightarrow> error + sim" where
  "move_process qs from to =
     (case deref qs from of
        [] \<Rightarrow> Inl AssertionFailed
      | p # rest \<Rightarrow>
          (let qs1 = assign qs from rest
           in Inr (assign qs1 to (deref qs1 to @ [p]))))"

section \<open>Applying a transition\<close>

definition execute_move ::
  "sim \<Rightarrow> queue_ptr \<Rightarrow> queue_ptr \<Rightarrow> move \<Rightarrow> int32 \<Rightarrow> sort_alg \<Rightarrow> error + sim" where
  "execute_move qs from to move current_time sort' =
     ebind (move_process qs from to) (\<lambda>qs.
       let output_file =
             (case sort' of FCFS_SORT \<Rightarrow> FCFS_OUTPUT | SJF_SORT \<Rightarrow> SJF_OUTPUT
              | SRTF_SORT \<Rightarrow> SRTF_OUTPUT)
       in
       ebind
         (case move of
            NEW_TO_READY \<Rightarrow>
              ebind (get_tail_pid (deref qs to)) (\<lambda>p.
                Inr (True, write_update qs output_file current_time p NEW_STATE READY_STATE))
          | READY_TO_RUNNING \<Rightarrow>
              ebind (set_head_last_start (deref qs to) current_time) (\<lambda>q.
              let qs = assign qs to q in
              ebind (get_tail_pid (deref qs to)) (\<lambda>p.
                Inr (False,
                  write_update qs output_file current_time p READY_STATE RUNNING_STATE)))
          | RUNNING_TO_TERMINATED \<Rightarrow>
              ebind (set_tail_remaining_time (deref qs to) 0) (\<lambda>q.
              let qs = assign qs to q in
              ebind (get_tail_pid (deref qs to)) (\<lambda>p.
                Inr (False,
                  write_update qs output_file current_time p RUNNING_STATE TERMINATED_STATE)))
          | RUNNING_TO_WAITING \<Rightarrow>
              ebind (get_tail_remaining_time (deref qs to)) (\<lambda>r.
              ebind (get_tail_iofreq_val (deref qs to)) (\<lambda>f.
              ebind (set_tail_remaining_time (deref qs to) (r - f)) (\<lambda>q.
              let qs = assign qs to q in
              ebind (set_tail_io_start (deref qs to) current_time) (\<lambda>q.
              let qs = assign qs to q in
              ebind (get_tail_pid (deref qs to)) (\<lambda>p.
                Inr (False,
                  write_update qs output_file current_time p RUNNING_STATE WAITING_STATE))))))
          | WAITING_TO_READY \<Rightarrow>
              ebind (get_tail_pid (deref qs to)) (\<lambda>p.
                Inr (True,
                  write_update qs output_file current_time p WAITING_STATE READY_STATE))
          | RUNNING_TO_READY \<Rightarrow>
              ebind (get_tail_remaining_time (deref qs to)) (\<lambda>r.
              ebind (get_tail_rr_freq (deref qs to)) (\<lambda>f.
              ebind (set_tail_remaining_time (deref qs to) (r - f)) (\<lambda>q.
              let qs = assign qs to q in
              ebind (get_tail_pid (deref qs to)) (\<lambda>p.
                Inr (True,
                  write_update qs output_file current_time p RUNNING_STATE READY_STATE))))))
         (\<lambda>(must_sort, qs).
            Inr (if must_sort
                 then (if sort' = SJF_SORT then assign qs to (g_queue_sort (deref qs to) sort_sjf)
                       else if sort' = SRTF_SORT
                       then assign qs to (g_queue_sort (deref qs to) sort_srtf)
                       else qs)
                 else qs)))"

section \<open>Choosing the next transition\<close>

text \<open>The six local variables of \<^verbatim>\<open>get_next_move\<close> that hold the candidate times.\<close>

record times =
  all_to_ready :: int32
  ready_to_running :: int32
  running_to_terminated :: int32
  running_to_waiting :: int32
  waiting_to_ready :: int32
  running_to_ready :: int32

text \<open>Lines 547 to 552: each variable keeps \<^verbatim>\<open>INT_MAX\<close> unless its guard holds.\<close>

definition event_times :: "sim \<Rightarrow> int32 \<Rightarrow> error + times" where
  "event_times qs current_time =
     ebind (if \<not> g_queue_is_empty (all qs) then get_head_start_val (all qs) else Inr INT_MAX)
       (\<lambda>a2r.
     ebind (if \<not> g_queue_is_empty (ready qs) \<and> g_queue_is_empty (running qs)
            then ebind (get_head_start_val (ready qs)) (\<lambda>s. Inr (MAX' current_time s))
            else Inr INT_MAX)
       (\<lambda>r2r.
     ebind (if \<not> g_queue_is_empty (running qs)
            then get_next_io_time (running qs) current_time else Inr INT_MAX)
       (\<lambda>r2w.
     ebind (if \<not> g_queue_is_empty (running qs)
            then ebind (get_head_remaining_time (running qs)) (\<lambda>a.
                 ebind (get_head_last_start (running qs)) (\<lambda>b. Inr (a + b)))
            else Inr INT_MAX)
       (\<lambda>r2t.
     ebind (if \<not> g_queue_is_empty (waiting qs)
            then ebind (get_head_last_io_start (waiting qs)) (\<lambda>a.
                 ebind (get_head_iodur (waiting qs)) (\<lambda>b. Inr (a + b)))
            else Inr INT_MAX)
       (\<lambda>w2r.
     ebind (if \<not> g_queue_is_empty (running qs)
            then ebind (get_head_last_start (running qs)) (\<lambda>a.
                 ebind (get_head_rr_freq (running qs)) (\<lambda>b. Inr (a + b)))
            else Inr INT_MAX)
       (\<lambda>rn2r.
     Inr \<lparr>all_to_ready = a2r, ready_to_running = r2r, running_to_terminated = r2t,
          running_to_waiting = r2w, waiting_to_ready = w2r, running_to_ready = rn2r\<rparr>))))))"

text \<open>Lines 555 to 560: a negative time becomes \<^verbatim>\<open>INT_MAX\<close>.\<close>

definition sanitize1 :: "int32 \<Rightarrow> int32" where
  "sanitize1 x = (if x <s 0 then INT_MAX else x)"

definition sanitize :: "times \<Rightarrow> times" where
  "sanitize tm =
     \<lparr>all_to_ready = sanitize1 (all_to_ready tm),
      ready_to_running = sanitize1 (ready_to_running tm),
      running_to_terminated = sanitize1 (running_to_terminated tm),
      running_to_waiting = sanitize1 (running_to_waiting tm),
      waiting_to_ready = sanitize1 (waiting_to_ready tm),
      running_to_ready = sanitize1 (running_to_ready tm)\<rparr>"

text \<open>Line 562.\<close>

definition minimum :: "times \<Rightarrow> int32" where
  "minimum tm =
     MIN' (MIN' (MIN' (MIN' (MIN' (all_to_ready tm) (ready_to_running tm))
       (running_to_terminated tm)) (running_to_waiting tm)) (waiting_to_ready tm))
       (running_to_ready tm)"

text \<open>
  Lines 564 to 596: the chain of comparisons that sets \<^verbatim>\<open>move\<close>, \<^verbatim>\<open>from\<close> and \<^verbatim>\<open>to\<close>;
  \<open>None\<close> stands for the two places that return \<^verbatim>\<open>move\<close> unchanged.
\<close>

definition select_move :: "times \<Rightarrow> int32 \<Rightarrow> (move \<times> queue_ptr \<times> queue_ptr) option" where
  "select_move tm min' =
     (if min' = INT_MAX then None
      else if min' = waiting_to_ready tm then Some (WAITING_TO_READY, P_waiting, P_ready)
      else if min' = all_to_ready tm then Some (NEW_TO_READY, P_all, P_ready)
      else if min' = running_to_ready tm then Some (RUNNING_TO_READY, P_running, P_ready)
      else if min' = running_to_waiting tm then Some (RUNNING_TO_WAITING, P_running, P_waiting)
      else if min' = running_to_terminated tm
      then Some (RUNNING_TO_TERMINATED, P_running, P_terminated)
      else if min' = ready_to_running tm then Some (READY_TO_RUNNING, P_ready, P_running)
      else None)"

definition get_next_move :: "sim \<Rightarrow> int32 \<Rightarrow> sort_alg \<Rightarrow> error + (int32 \<times> sim)" where
  "get_next_move qs current_time sort' =
     (if \<not> (0 \<le>s current_time) then Inl AssertionFailed
      else
        ebind (event_times qs current_time) (\<lambda>raw.
          let tm = sanitize raw;
              min' = minimum tm
          in case select_move tm min' of
               None \<Rightarrow> Inr (INVALID_MOVE, qs)
             | Some (move, from, to) \<Rightarrow>
                 ebind (execute_move qs from to move min' sort') (\<lambda>qs'. Inr (min', qs'))))"

section \<open>The driver\<close>

text \<open>
  One run of \<^verbatim>\<open>main\<close>: the loop \<^verbatim>\<open>while((t = get_next_move(...)) != INVALID_MOVE);\<close>
  may go on for ever, so the states it passes through are given by a step relation:
  \<open>run sort' qs0 (t, qs)\<close> holds when the loop, started at \<^verbatim>\<open>INITIAL_TIME\<close> on \<open>qs0\<close>, has
  \<open>t\<close> and \<open>qs\<close> after some number of iterations that did not end it.
\<close>

inductive run :: "sort_alg \<Rightarrow> sim \<Rightarrow> int32 \<times> sim \<Rightarrow> bool" for sort' :: sort_alg and qs0 :: sim where
  start: "run sort' qs0 (INITIAL_TIME, qs0)"
| step: "run sort' qs0 (t, qs) \<Longrightarrow> get_next_move qs t sort' = Inr (t', qs') \<Longrightarrow>
         t' \<noteq> INVALID_MOVE \<Longrightarrow> run sort' qs0 (t', qs')"

text \<open>The same loop with a bound on the number of iterations, to run it on an input.\<close>

fun iterate :: "nat \<Rightarrow> sort_alg \<Rightarrow> int32 \<times> sim \<Rightarrow> error + (int32 \<times> sim)" where
  "iterate 0 sort' (t, qs) = Inr (t, qs)"
| "iterate (Suc n) sort' (t, qs) =
     (case get_next_move qs t sort' of
        Inl e \<Rightarrow> Inl e
      | Inr (t', qs') \<Rightarrow> if t' = INVALID_MOVE then Inr (t', qs') else iterate n sort' (t', qs'))"

text \<open>
  What \<^verbatim>\<open>main\<close> does before a run: the parsed queue is sorted by arrival and the other
  four queues are empty.
\<close>

definition load :: "(Process option \<times> input_line) list \<Rightarrow> error + sim" where
  "load lines =
     ebind (parse_file lines []) (\<lambda>q.
       Inr \<lparr>all = g_queue_sort q sort_fcfs, ready = [], running = [], waiting = [],
            terminated = [], written = []\<rparr>)"

section \<open>Closed forms used in the proofs\<close>

definition head_or :: "Process list \<Rightarrow> (Process \<Rightarrow> int32) \<Rightarrow> int32" where
  "head_or q f = (case q of [] \<Rightarrow> INT_MAX | p # _ \<Rightarrow> f p)"

definition raw_times :: "sim \<Rightarrow> int32 \<Rightarrow> times" where
  "raw_times qs t =
     \<lparr>all_to_ready = head_or (all qs) start,
      ready_to_running =
        (if running qs = [] then head_or (ready qs) (\<lambda>p. MAX' t (start p)) else INT_MAX),
      running_to_terminated = head_or (running qs) (\<lambda>p. remaining p + last_start p),
      running_to_waiting = head_or (running qs) (\<lambda>p. last_start p + iofreq p),
      waiting_to_ready = head_or (waiting qs) (\<lambda>p. last_io_start p + iodur p),
      running_to_ready = head_or (running qs) (\<lambda>p. last_start p + rr p)\<rparr>"

definition cand :: "sim \<Rightarrow> int32 \<Rightarrow> times" where
  "cand qs t = sanitize (raw_times qs t)"

section \<open>The transitions as the specification names them\<close>

text \<open>
  Each transition has the local variable of \<^verbatim>\<open>get_next_move\<close> that holds its candidate
  time, the queue it takes from, the queue it adds to, and the two states it logs.
\<close>

fun time_of :: "times \<Rightarrow> move \<Rightarrow> int32" where
  "time_of tm NEW_TO_READY = all_to_ready tm"
| "time_of tm READY_TO_RUNNING = ready_to_running tm"
| "time_of tm RUNNING_TO_TERMINATED = running_to_terminated tm"
| "time_of tm RUNNING_TO_WAITING = running_to_waiting tm"
| "time_of tm WAITING_TO_READY = waiting_to_ready tm"
| "time_of tm RUNNING_TO_READY = running_to_ready tm"

fun source :: "move \<Rightarrow> queue_ptr" where
  "source NEW_TO_READY = P_all"
| "source READY_TO_RUNNING = P_ready"
| "source RUNNING_TO_TERMINATED = P_running"
| "source RUNNING_TO_WAITING = P_running"
| "source WAITING_TO_READY = P_waiting"
| "source RUNNING_TO_READY = P_running"

fun destination :: "move \<Rightarrow> queue_ptr" where
  "destination NEW_TO_READY = P_ready"
| "destination READY_TO_RUNNING = P_running"
| "destination RUNNING_TO_TERMINATED = P_terminated"
| "destination RUNNING_TO_WAITING = P_waiting"
| "destination WAITING_TO_READY = P_ready"
| "destination RUNNING_TO_READY = P_ready"

fun old_state :: "move \<Rightarrow> state_code" where
  "old_state NEW_TO_READY = NEW_STATE"
| "old_state READY_TO_RUNNING = READY_STATE"
| "old_state RUNNING_TO_TERMINATED = RUNNING_STATE"
| "old_state RUNNING_TO_WAITING = RUNNING_STATE"
| "old_state WAITING_TO_READY = WAITING_STATE"
| "old_state RUNNING_TO_READY = RUNNING_STATE"

fun new_state :: "move \<Rightarrow> state_code" where
  "new_state NEW_TO_READY = READY_STATE"
| "new_state READY_TO_RUNNING = RUNNING_STATE"
| "new_state RUNNING_TO_TERMINATED = TERMINATED_STATE"
| "new_state RUNNING_TO_WAITING = WAITING_STATE"
| "new_state WAITING_TO_READY = READY_STATE"
| "new_state RUNNING_TO_READY = READY_STATE"

text \<open>The order in which the specification resolves a tie.\<close>

definition tie_break_order :: "move list" where
  "tie_break_order =
     [WAITING_TO_READY, NEW_TO_READY, RUNNING_TO_READY, RUNNING_TO_WAITING,
      RUNNING_TO_TERMINATED, READY_TO_RUNNING]"

text \<open>The state before a run: every process is in New and the other four queues are empty.\<close>

definition initial :: "sim \<Rightarrow> bool" where
  "initial qs \<longleftrightarrow> ready qs = [] \<and> running qs = [] \<and> waiting qs = [] \<and> terminated qs = []"

text \<open>
  What holds of a process that arrives at \<^verbatim>\<open>INT_MAX\<close> and of the log, relative to the
  state \<open>qs0\<close> before the run: no logged line has the time \<^verbatim>\<open>INT_MAX\<close>, the processes of
  New that arrive at \<^verbatim>\<open>INT_MAX\<close> are those that were there before the run, in the same
  order, and no process of the other four queues arrives at \<^verbatim>\<open>INT_MAX\<close>.
\<close>

definition left_behind :: "sim \<Rightarrow> sim \<Rightarrow> bool" where
  "left_behind qs0 qs \<longleftrightarrow>
     (\<forall>l \<in> set (written qs). fst (snd l) \<noteq> INT_MAX) \<and>
     filter (\<lambda>p. start p = INT_MAX) (all qs) = filter (\<lambda>p. start p = INT_MAX) (all qs0) \<and>
     (\<forall>p \<in> set (ready qs) \<union> set (running qs) \<union> set (waiting qs) \<union> set (terminated qs).
        start p \<noteq> INT_MAX)"

text \<open>A queue is in the order of a field when the field does not decrease along it.\<close>

definition ordered_by :: "(Process \<Rightarrow> int32) \<Rightarrow> Process list \<Rightarrow> bool" where
  "ordered_by key q \<longleftrightarrow> sorted_wrt (\<lambda>a b. key a \<le>s key b) q"

text \<open>
  What becomes of the Ready queue after an insertion, by policy, and the result file of a
  policy.
\<close>

definition resort :: "sort_alg \<Rightarrow> Process list \<Rightarrow> Process list" where
  "resort s q =
     (case s of FCFS_SORT \<Rightarrow> q | SJF_SORT \<Rightarrow> g_queue_sort q sort_sjf
      | SRTF_SORT \<Rightarrow> g_queue_sort q sort_srtf)"

definition file_of :: "sort_alg \<Rightarrow> output_file" where
  "file_of s = (case s of FCFS_SORT \<Rightarrow> FCFS_OUTPUT | SJF_SORT \<Rightarrow> SJF_OUTPUT
     | SRTF_SORT \<Rightarrow> SRTF_OUTPUT)"

text \<open>All processes of a state, queue after queue.\<close>

definition procs :: "sim \<Rightarrow> Process list" where
  "procs qs = all qs @ ready qs @ running qs @ waiting qs @ terminated qs"

text \<open>
  What \<^verbatim>\<open>parse_file\<close> establishes for each process: arrival and burst are not negative,
  nothing of the burst is used yet, and the I/O interval, the I/O duration and the
  quantum are positive.
\<close>

definition well_formed :: "Process \<Rightarrow> bool" where
  "well_formed p \<longleftrightarrow>
     0 \<le>s start p \<and> 0 \<le>s total' p \<and> remaining p = total' p \<and>
     0 <s iofreq p \<and> 0 <s iodur p \<and> 0 <s rr p"

text \<open>What stays true of a process during a run, and of a state.\<close>

definition burst_ok :: "Process \<Rightarrow> bool" where
  "burst_ok p \<longleftrightarrow>
     0 \<le>s remaining p \<and> remaining p \<le>s total' p \<and> 0 <s iofreq p \<and> 0 <s rr p"

definition burst_inv :: "sim \<Rightarrow> bool" where
  "burst_inv qs \<longleftrightarrow>
     (\<forall>p \<in> set (procs qs). burst_ok p) \<and>
     (\<forall>p \<in> set (running qs). 0 \<le>s last_start p) \<and>
     (\<forall>p \<in> set (terminated qs). remaining p = 0)"

text \<open>
  One process \<open>p\<close> of the state has become \<open>p'\<close>, with the same identity and parameters
  and no more burst left than before; every other process is as it was.
\<close>

definition one_changed :: "sim \<Rightarrow> sim \<Rightarrow> Process \<Rightarrow> Process \<Rightarrow> bool" where
  "one_changed qs qs' p p' \<longleftrightarrow>
     p \<in> set (procs qs) \<and>
     mset (procs qs') = mset (procs qs) - {#p#} + {#p'#} \<and>
     pid p' = pid p \<and> start p' = start p \<and> total' p' = total' p \<and>
     iofreq p' = iofreq p \<and> iodur p' = iodur p \<and> rr p' = rr p \<and>
     remaining p' \<le>s remaining p"

section \<open>Concrete states\<close>

text \<open>A process given by its nine fields, in the order of \<^verbatim>\<open>struct process\<close>.\<close>

definition mk ::
  "int32 \<Rightarrow> int32 \<Rightarrow> int32 \<Rightarrow> int32 \<Rightarrow> int32 \<Rightarrow> int32 \<Rightarrow> int32 \<Rightarrow> int32 \<Rightarrow> int32 \<Rightarrow> Process" where
  "mk i st tot iof iod rem ls lio q =
     \<lparr>pid = i, start = st, total' = tot, iofreq = iof, iodur = iod, remaining = rem,
      last_start = ls, last_io_start = lio, rr = q\<rparr>"

text \<open>The block that \<^verbatim>\<open>malloc\<close> returns in the examples.\<close>

definition fresh_block :: "Process option" where
  "fresh_block = Some (mk 0 0 0 0 0 0 0 0 0)"

text \<open>
  A state in which four transitions are due at time 5 and one later: the running process
  started at 3 with quantum 2, I/O interval 2 and 2 units left, the head of Waiting began
  a 1-unit I/O at 4, and a process in New arrives at 9.
\<close>

definition tie_state :: sim where
  "tie_state =
     \<lparr>all = [\<lparr>pid = 3, start = 9, total' = 4, iofreq = 2, iodur = 1, remaining = 4,
              last_start = 0, last_io_start = 0, rr = 2\<rparr>],
      ready = [],
      running = [\<lparr>pid = 1, start = 0, total' = 6, iofreq = 2, iodur = 1, remaining = 2,
              last_start = 3, last_io_start = 0, rr = 2\<rparr>],
      waiting = [\<lparr>pid = 2, start = 0, total' = 6, iofreq = 2, iodur = 1, remaining = 4,
              last_start = 2, last_io_start = 4, rr = 2\<rparr>],
      terminated = [],
      written = []\<rparr>"

definition tie_raw :: times where
  "tie_raw =
     \<lparr>all_to_ready = 9, ready_to_running = INT_MAX, running_to_terminated = 5,
      running_to_waiting = 5, waiting_to_ready = 5, running_to_ready = 5\<rparr>"

text \<open>
  A state in which two additions overflow: the running process started at 5 and has neither
  I/O nor a quantum (both fields hold \<^verbatim>\<open>INT_MAX\<close>), with 3 units left.
\<close>

definition overflow_state :: sim where
  "overflow_state =
     \<lparr>all = [], ready = [],
      running = [\<lparr>pid = 1, start = 5, total' = 3, iofreq = 2147483647, iodur = 2147483647,
              remaining = 3, last_start = 5, last_io_start = 0, rr = 2147483647\<rparr>],
      waiting = [], terminated = [], written = []\<rparr>"

definition overflow_raw :: times where
  "overflow_raw =
     \<lparr>all_to_ready = 2147483647, ready_to_running = 2147483647, running_to_terminated = 8,
      running_to_waiting = - 2147483644, waiting_to_ready = 2147483647,
      running_to_ready = - 2147483644\<rparr>"

text \<open>The state in which nothing is left to do: every queue is empty.\<close>

definition idle_state :: sim where
  "idle_state =
     \<lparr>all = [], ready = [], running = [], waiting = [], terminated = [], written = []\<rparr>"

definition idle_raw :: times where
  "idle_raw =
     \<lparr>all_to_ready = INT_MAX, ready_to_running = INT_MAX, running_to_terminated = INT_MAX,
      running_to_waiting = INT_MAX, waiting_to_ready = INT_MAX, running_to_ready = INT_MAX\<rparr>"

text \<open>
  The run of the single input line \<^verbatim>\<open>1,0,2,2,1,0\<close>: a process that needs 2 units and
  does I/O every 2 units. The states after 0, 1, 2 and 3 calls of \<^verbatim>\<open>get_next_move\<close>.
\<close>

definition short_io_0 :: sim where
  "short_io_0 =
     \<lparr>all = [mk 1 0 2 2 1 2 0 0 2147483647], ready = [], running = [], waiting = [],
      terminated = [], written = []\<rparr>"

definition short_io_1 :: sim where
  "short_io_1 =
     \<lparr>all = [], ready = [mk 1 0 2 2 1 2 0 0 2147483647], running = [], waiting = [],
      terminated = [], written = [(FCFS_OUTPUT, (0, 1, NEW_STATE, READY_STATE))]\<rparr>"

definition short_io_1_raw :: times where
  "short_io_1_raw =
     \<lparr>all_to_ready = INT_MAX, ready_to_running = 0, running_to_terminated = INT_MAX,
      running_to_waiting = INT_MAX, waiting_to_ready = INT_MAX, running_to_ready = INT_MAX\<rparr>"

definition short_io_2 :: sim where
  "short_io_2 =
     \<lparr>all = [], ready = [], running = [mk 1 0 2 2 1 2 0 0 2147483647], waiting = [],
      terminated = [],
      written = [(FCFS_OUTPUT, (0, 1, NEW_STATE, READY_STATE)),
                 (FCFS_OUTPUT, (0, 1, READY_STATE, RUNNING_STATE))]\<rparr>"

definition short_io_3 :: sim where
  "short_io_3 =
     \<lparr>all = [], ready = [], running = [], waiting = [mk 1 0 2 2 1 0 0 2 2147483647],
      terminated = [],
      written = [(FCFS_OUTPUT, (0, 1, NEW_STATE, READY_STATE)),
                 (FCFS_OUTPUT, (0, 1, READY_STATE, RUNNING_STATE)),
                 (FCFS_OUTPUT, (2, 1, RUNNING_STATE, WAITING_STATE))]\<rparr>"

text \<open>The state loaded from the single input line \<^verbatim>\<open>1,2147483647,5,0,0,0\<close>.\<close>

definition late_state :: sim where
  "late_state =
     \<lparr>all = [mk 1 2147483647 5 2147483647 2147483647 5 0 0 2147483647], ready = [],
      running = [], waiting = [], terminated = [], written = []\<rparr>"

definition late_raw :: times where
  "late_raw =
     \<lparr>all_to_ready = 2147483647, ready_to_running = 2147483647,
      running_to_terminated = 2147483647, running_to_waiting = 2147483647,
      waiting_to_ready = 2147483647, running_to_ready = 2147483647\<rparr>"

text \<open>Two processes, the longer one first, with 5 and 3 units in total and 4 and 1 left.\<close>

definition long_short :: "Process list" where
  "long_short = [mk 1 0 5 2147483647 2147483647 4 0 0 1, mk 2 0 3 2147483647 2147483647 1 0 0 2]"

text \<open>
  The run of the two input lines \<^verbatim>\<open>1,0,10,3,1,50\<close> and \<^verbatim>\<open>2,0,10,2,100,50\<close> under
  \<^verbatim>\<open>FCFS_SORT\<close>: the states after 0 to 8 calls of \<^verbatim>\<open>get_next_move\<close>. Process 2 begins an
  I/O of 100 units at time 2, process 1 an I/O of 1 unit at time 5, behind it in Waiting.
  No addition of this run overflows.
\<close>

definition two_io_0 :: sim where
  "two_io_0 =
     \<lparr>all = [mk 2 0 10 2 100 10 0 0 50,
            mk 1 0 10 3 1 10 0 0 50],
      ready = [],
      running = [],
      waiting = [],
      terminated = [],
      written = []\<rparr>"

definition two_io_1 :: sim where
  "two_io_1 =
     \<lparr>all = [mk 1 0 10 3 1 10 0 0 50],
      ready = [mk 2 0 10 2 100 10 0 0 50],
      running = [],
      waiting = [],
      terminated = [],
      written = [(FCFS_OUTPUT, (0, 2, NEW_STATE, READY_STATE))]\<rparr>"

definition two_io_2 :: sim where
  "two_io_2 =
     \<lparr>all = [],
      ready = [mk 2 0 10 2 100 10 0 0 50,
               mk 1 0 10 3 1 10 0 0 50],
      running = [],
      waiting = [],
      terminated = [],
      written = [(FCFS_OUTPUT, (0, 2, NEW_STATE, READY_STATE)),
                 (FCFS_OUTPUT, (0, 1, NEW_STATE, READY_STATE))]\<rparr>"

definition two_io_3 :: sim where
  "two_io_3 =
     \<lparr>all = [],
      ready = [mk 1 0 10 3 1 10 0 0 50],
      running = [mk 2 0 10 2 100 10 0 0 50],
      waiting = [],
      terminated = [],
      written = [(FCFS_OUTPUT, (0, 2, NEW_STATE, READY_STATE)),
                 (FCFS_OUTPUT, (0, 1, NEW_STATE, READY_STATE)),
                 (FCFS_OUTPUT, (0, 2, READY_STATE, RUNNING_STATE))]\<rparr>"

definition two_io_4 :: sim where
  "two_io_4 =
     \<lparr>all = [],
      ready = [mk 1 0 10 3 1 10 0 0 50],
      running = [],
      waiting = [mk 2 0 10 2 100 8 0 2 50],
      terminated = [],
      written = [(FCFS_OUTPUT, (0, 2, NEW_STATE, READY_STATE)),
                 (FCFS_OUTPUT, (0, 1, NEW_STATE, READY_STATE)),
                 (FCFS_OUTPUT, (0, 2, READY_STATE, RUNNING_STATE)),
                 (FCFS_OUTPUT, (2, 2, RUNNING_STATE, WAITING_STATE))]\<rparr>"

definition two_io_5 :: sim where
  "two_io_5 =
     \<lparr>all = [],
      ready = [],
      running = [mk 1 0 10 3 1 10 2 0 50],
      waiting = [mk 2 0 10 2 100 8 0 2 50],
      terminated = [],
      written = [(FCFS_OUTPUT, (0, 2, NEW_STATE, READY_STATE)),
                 (FCFS_OUTPUT, (0, 1, NEW_STATE, READY_STATE)),
                 (FCFS_OUTPUT, (0, 2, READY_STATE, RUNNING_STATE)),
                 (FCFS_OUTPUT, (2, 2, RUNNING_STATE, WAITING_STATE)),
                 (FCFS_OUTPUT, (2, 1, READY_STATE, RUNNING_STATE))]\<rparr>"

definition two_io_6 :: sim where
  "two_io_6 =
     \<lparr>all = [],
      ready = [],
      running = [],
      waiting = [mk 2 0 10 2 100 8 0 2 50,
                 mk 1 0 10 3 1 7 2 5 50],
      terminated = [],
      written = [(FCFS_OUTPUT, (0, 2, NEW_STATE, READY_STATE)),
                 (FCFS_OUTPUT, (0, 1, NEW_STATE, READY_STATE)),
                 (FCFS_OUTPUT, (0, 2, READY_STATE, RUNNING_STATE)),
                 (FCFS_OUTPUT, (2, 2, RUNNING_STATE, WAITING_STATE)),
                 (FCFS_OUTPUT, (2, 1, READY_STATE, RUNNING_STATE)),
                 (FCFS_OUTPUT, (5, 1, RUNNING_STATE, WAITING_STATE))]\<rparr>"

definition two_io_7 :: sim where
  "two_io_7 =
     \<lparr>all = [],
      ready = [mk 2 0 10 2 100 8 0 2 50],
      running = [],
      waiting = [mk 1 0 10 3 1 7 2 5 50],
      terminated = [],
      written = [(FCFS_OUTPUT, (0, 2, NEW_STATE, READY_STATE)),
                 (FCFS_OUTPUT, (0, 1, NEW_STATE, READY_STATE)),
                 (FCFS_OUTPUT, (0, 2, READY_STATE, RUNNING_STATE)),
                 (FCFS_OUTPUT, (2, 2, RUNNING_STATE, WAITING_STATE)),
                 (FCFS_OUTPUT, (2, 1, READY_STATE, RUNNING_STATE)),
                 (FCFS_OUTPUT, (5, 1, RUNNING_STATE, WAITING_STATE)),
                 (FCFS_OUTPUT, (102, 2, WAITING_STATE, READY_STATE))]\<rparr>"

definition two_io_8 :: sim where
  "two_io_8 =
     \<lparr>all = [],
      ready = [mk 2 0 10 2 100 8 0 2 50,
               mk 1 0 10 3 1 7 2 5 50],
      running = [],
      waiting = [],
      terminated = [],
      written = [(FCFS_OUTPUT, (0, 2, NEW_STATE, READY_STATE)),
                 (FCFS_OUTPUT, (0, 1, NEW_STATE, READY_STATE)),
                 (FCFS_OUTPUT, (0, 2, READY_STATE, RUNNING_STATE)),
                 (FCFS_OUTPUT, (2, 2, RUNNING_STATE, WAITING_STATE)),
                 (FCFS_OUTPUT, (2, 1, READY_STATE, RUNNING_STATE)),
                 (FCFS_OUTPUT, (5, 1, RUNNING_STATE, WAITING_STATE)),
                 (FCFS_OUTPUT, (102, 2, WAITING_STATE, READY_STATE)),
                 (FCFS_OUTPUT, (6, 1, WAITING_STATE, READY_STATE))]\<rparr>"

text \<open>
  The run of the single input line \<^verbatim>\<open>1,0,5,0,0,0\<close>, a process without I/O and without
  quantum: the states after 0, 1 and 2 calls.
\<close>

definition plain_0 :: sim where
  "plain_0 =
     \<lparr>all = [mk 1 0 5 2147483647 2147483647 5 0 0 2147483647],
      ready = [],
      running = [],
      waiting = [],
      terminated = [],
      written = []\<rparr>"

definition plain_1 :: sim where
  "plain_1 =
     \<lparr>all = [],
      ready = [mk 1 0 5 2147483647 2147483647 5 0 0 2147483647],
      running = [],
      waiting = [],
      terminated = [],
      written = [(FCFS_OUTPUT, (0, 1, NEW_STATE, READY_STATE))]\<rparr>"

definition plain_2 :: sim where
  "plain_2 =
     \<lparr>all = [],
      ready = [],
      running = [mk 1 0 5 2147483647 2147483647 5 0 0 2147483647],
      waiting = [],
      terminated = [],
      written = [(FCFS_OUTPUT, (0, 1, NEW_STATE, READY_STATE)),
                 (FCFS_OUTPUT, (0, 1, READY_STATE, RUNNING_STATE))]\<rparr>"

text \<open>
  The run of the single input line \<^verbatim>\<open>1,2147483642,3,5,1,4\<close>, a process that arrives five
  units before \<^verbatim>\<open>INT_MAX\<close>, needs 3 units, does I/O every 5 units and has a quantum of 4:
  the states after 0, 1 and 2 calls. No addition of this run overflows.
\<close>

definition edge_0 :: sim where
  "edge_0 =
     \<lparr>all = [mk 1 2147483642 3 5 1 3 0 0 4],
      ready = [],
      running = [],
      waiting = [],
      terminated = [],
      written = []\<rparr>"

definition edge_1 :: sim where
  "edge_1 =
     \<lparr>all = [],
      ready = [mk 1 2147483642 3 5 1 3 0 0 4],
      running = [],
      waiting = [],
      terminated = [],
      written = [(FCFS_OUTPUT, (2147483642, 1, NEW_STATE, READY_STATE))]\<rparr>"

definition edge_2 :: sim where
  "edge_2 =
     \<lparr>all = [],
      ready = [],
      running = [mk 1 2147483642 3 5 1 3 2147483642 0 4],
      waiting = [],
      terminated = [],
      written = [(FCFS_OUTPUT, (2147483642, 1, NEW_STATE, READY_STATE)),
                 (FCFS_OUTPUT, (2147483642, 1, READY_STATE, RUNNING_STATE))]\<rparr>"

definition edge_2_raw :: times where
  "edge_2_raw =
     \<lparr>all_to_ready = 2147483647, ready_to_running = 2147483647,
      running_to_terminated = 2147483645, running_to_waiting = 2147483647,
      waiting_to_ready = 2147483647, running_to_ready = 2147483646\<rparr>"

definition plain_2_raw :: times where
  "plain_2_raw =
     \<lparr>all_to_ready = 2147483647, ready_to_running = 2147483647,
      running_to_terminated = 5, running_to_waiting = 2147483647,
      waiting_to_ready = 2147483647, running_to_ready = 2147483647\<rparr>"

definition short_io_2_raw :: times where
  "short_io_2_raw =
     \<lparr>all_to_ready = 2147483647, ready_to_running = 2147483647,
      running_to_terminated = 2, running_to_waiting = 2,
      waiting_to_ready = 2147483647, running_to_ready = 2147483647\<rparr>"

text \<open>What \<^verbatim>\<open>get_next_move\<close> makes of \<open>overflow_state\<close> at time 5: the process ends at 8.\<close>

definition overflow_after :: sim where
  "overflow_after =
     \<lparr>all = [], ready = [], running = [], waiting = [],
      terminated = [\<lparr>pid = 1, start = 5, total' = 3, iofreq = 2147483647, iodur = 2147483647,
              remaining = 0, last_start = 5, last_io_start = 0, rr = 2147483647\<rparr>],
      written = [(FCFS_OUTPUT, (8, 1, RUNNING_STATE, TERMINATED_STATE))]\<rparr>"

text \<open>What \<^verbatim>\<open>get_next_move\<close> makes of \<open>tie_state\<close> at time 4 under \<^verbatim>\<open>FCFS_SORT\<close>.\<close>

definition tie_after :: sim where
  "tie_after =
     \<lparr>all = [\<lparr>pid = 3, start = 9, total' = 4, iofreq = 2, iodur = 1, remaining = 4,
              last_start = 0, last_io_start = 0, rr = 2\<rparr>],
      ready = [\<lparr>pid = 2, start = 0, total' = 6, iofreq = 2, iodur = 1, remaining = 4,
              last_start = 2, last_io_start = 4, rr = 2\<rparr>],
      running = [\<lparr>pid = 1, start = 0, total' = 6, iofreq = 2, iodur = 1, remaining = 2,
              last_start = 3, last_io_start = 0, rr = 2\<rparr>],
      waiting = [],
      terminated = [],
      written = [(FCFS_OUTPUT, (5, 2, WAITING_STATE, READY_STATE))]\<rparr>"

section \<open>Auxiliary lemmas\<close>

lemma ebind_Inl: "ebind (Inl e) f = Inl e"
  by (simp add: ebind_def)

lemma ebind_Inr: "ebind (Inr x) f = f x"
  by (simp add: ebind_def)

lemma sint_INT_MAX: "sint INT_MAX = 2147483647"
  by (simp add: INT_MAX_def)

lemma sint_INVALID_MOVE: "sint INVALID_MOVE = - 1"
  by (simp add: INVALID_MOVE_def)

lemma sint_range32: "- 2147483648 \<le> sint (x :: int32) \<and> sint x \<le> 2147483647"
  using sint_ge [of x] sint_lt [of x] by simp

lemma sint_inject32: "sint (a :: int32) = sint b \<longleftrightarrow> a = b"
  by (auto intro: signed_word_eqI)

lemma sless_sint: "(a :: int32) <s b \<longleftrightarrow> sint a < sint b"
  by (rule word_sless_alt)

lemma sle_sint: "(a :: int32) \<le>s b \<longleftrightarrow> sint a \<le> sint b"
  by (rule word_sle_eq)

lemma sint_add32:
  "sint (a + b :: int32) =
     (if sint a + sint b > 2147483647 then sint a + sint b - 4294967296
      else if sint a + sint b < - 2147483648 then sint a + sint b + 4294967296
      else sint a + sint b)"
proof -
  define k where "k = sint a + sint b"
  have r: "- 4294967296 \<le> k \<and> k \<le> 4294967294"
    using sint_range32 [of a] sint_range32 [of b] by (simp add: k_def)
  have e: "sint (a + b) = (k + 2147483648) mod 4294967296 - 2147483648"
    by (simp add: sint_word_ariths signed_take_bit_eq_take_bit_shift take_bit_eq_mod k_def)
  have "(k + 2147483648) mod 4294967296 =
      (if k > 2147483647 then k - 2147483648
       else if k < - 2147483648 then k + 6442450944 else k + 2147483648)"
  proof -
    have "k > 2147483647 \<Longrightarrow> (k + 2147483648) mod 4294967296 = k - 2147483648"
      using r mod_pos_pos_trivial [of "k - 2147483648" 4294967296]
        mod_add_self2 [of "k - 2147483648" 4294967296] by (simp add: add.commute)
    moreover have "k < - 2147483648 \<Longrightarrow> (k + 2147483648) mod 4294967296 = k + 6442450944"
      using r mod_pos_pos_trivial [of "k + 6442450944" 4294967296]
        mod_add_self2 [of "k + 2147483648" 4294967296] by (simp add: add.commute)
    moreover have "\<not> k > 2147483647 \<Longrightarrow> \<not> k < - 2147483648 \<Longrightarrow>
        (k + 2147483648) mod 4294967296 = k + 2147483648"
      using mod_pos_pos_trivial [of "k + 2147483648" 4294967296] by (simp add: add.commute)
    ultimately show ?thesis by simp
  qed
  then show ?thesis
    unfolding e k_def [symmetric] by auto
qed

lemma sint_MIN': "sint (MIN' a b) = min (sint a) (sint b)"
  by (simp add: MIN'_def sless_sint min_def)

lemma sint_MAX': "sint (MAX' a b) = max (sint a) (sint b)"
  by (simp add: MAX'_def sless_sint max_def)

lemma sint_sanitize1: "sint (sanitize1 x) = (if sint x < 0 then 2147483647 else sint x)"
  by (simp add: sanitize1_def sless_sint sint_INT_MAX)

lemma g_queue_is_empty_simps: "g_queue_is_empty [] = True" "g_queue_is_empty (x # xs) = False"
  by (simp_all add: g_queue_is_empty_def)

lemma peek_head_Cons: "g_queue_peek_head (p # ps) = Some p"
  by (simp add: g_queue_peek_head_def)

lemma peek_tail_snoc: "g_queue_peek_tail (q @ [p]) = Some p"
  by (simp add: g_queue_peek_tail_def)

lemma field_of_Some: "field_of (Some p) f = Inr (f p)"
  by (simp add: field_of_def)

lemmas head_getters =
  get_head_start_val_def get_head_iodur_def get_head_iofreq_val_def get_head_remaining_time_def
  get_head_rr_freq_def get_head_last_start_def get_head_last_io_start_def get_next_io_time_def

lemmas tail_getters =
  get_tail_pid_def get_tail_iofreq_val_def get_tail_remaining_time_def get_tail_rr_freq_def

lemma set_tail_remaining_time_snoc:
  "set_tail_remaining_time (q @ [p]) v = Inr (q @ [p\<lparr>remaining := v\<rparr>])"
  by (simp add: set_tail_remaining_time_def peek_tail_snoc)

lemma set_tail_io_start_snoc:
  "set_tail_io_start (q @ [p]) v = Inr (q @ [p\<lparr>last_io_start := v\<rparr>])"
  by (simp add: set_tail_io_start_def peek_tail_snoc)

lemma set_head_last_start_Cons:
  "set_head_last_start (p # ps) v = Inr (p\<lparr>last_start := v\<rparr> # ps)"
  by (simp add: set_head_last_start_def peek_head_Cons)

lemma event_times_eq: "event_times qs t = Inr (raw_times qs t)"
  unfolding event_times_def raw_times_def head_or_def
  by (cases "all qs"; cases "ready qs"; cases "running qs"; cases "waiting qs";
      simp add: g_queue_is_empty_simps head_getters peek_head_Cons field_of_Some ebind_Inr)

lemmas exec_simps =
  execute_move_def move_process_def ebind_Inr tail_getters peek_tail_snoc field_of_Some
  write_update_def set_tail_remaining_time_snoc set_tail_io_start_snoc resort_def file_of_def

lemma execute_move_W2R:
  "waiting qs = p # rest \<Longrightarrow>
   execute_move qs P_waiting P_ready WAITING_TO_READY t s =
     Inr (qs\<lparr>waiting := rest, ready := resort s (ready qs @ [p]),
             written := written qs @ [(file_of s, (t, pid p, WAITING_STATE, READY_STATE))]\<rparr>)"
  by (cases s) (simp_all add: exec_simps)

lemma execute_move_N2R:
  "all qs = p # rest \<Longrightarrow>
   execute_move qs P_all P_ready NEW_TO_READY t s =
     Inr (qs\<lparr>all := rest, ready := resort s (ready qs @ [p]),
             written := written qs @ [(file_of s, (t, pid p, NEW_STATE, READY_STATE))]\<rparr>)"
  by (cases s) (simp_all add: exec_simps)

lemma execute_move_R2R:
  "running qs = p # rest \<Longrightarrow>
   execute_move qs P_running P_ready RUNNING_TO_READY t s =
     Inr (qs\<lparr>running := rest,
             ready := resort s (ready qs @ [p\<lparr>remaining := remaining p - rr p\<rparr>]),
             written := written qs @ [(file_of s, (t, pid p, RUNNING_STATE, READY_STATE))]\<rparr>)"
  by (cases s) (simp_all add: exec_simps)

lemma execute_move_R2W:
  "running qs = p # rest \<Longrightarrow>
   execute_move qs P_running P_waiting RUNNING_TO_WAITING t s =
     Inr (qs\<lparr>running := rest,
             waiting := waiting qs @ [p\<lparr>remaining := remaining p - iofreq p, last_io_start := t\<rparr>],
             written := written qs @ [(file_of s, (t, pid p, RUNNING_STATE, WAITING_STATE))]\<rparr>)"
  by (cases s) (simp_all add: exec_simps)

lemma execute_move_R2T:
  "running qs = p # rest \<Longrightarrow>
   execute_move qs P_running P_terminated RUNNING_TO_TERMINATED t s =
     Inr (qs\<lparr>running := rest,
             terminated := terminated qs @ [p\<lparr>remaining := 0\<rparr>],
             written := written qs @ [(file_of s, (t, pid p, RUNNING_STATE, TERMINATED_STATE))]\<rparr>)"
  by (cases s) (simp_all add: exec_simps)

lemma execute_move_Rdy2Run:
  "ready qs = p # rest \<Longrightarrow> running qs = [] \<Longrightarrow>
   execute_move qs P_ready P_running READY_TO_RUNNING t s =
     Inr (qs\<lparr>ready := rest,
             running := [p\<lparr>last_start := t\<rparr>],
             written := written qs @ [(file_of s, (t, pid p, READY_STATE, RUNNING_STATE))]\<rparr>)"
  by (cases s) (simp_all add: exec_simps set_head_last_start_Cons g_queue_peek_tail_def)

lemma sanitize1_INT_MAX: "sanitize1 INT_MAX = INT_MAX"
  by (simp add: sanitize1_def)

lemma cand_simps:
  "all_to_ready (cand qs t) = sanitize1 (head_or (all qs) start)"
  "ready_to_running (cand qs t) =
     (if running qs = [] then sanitize1 (head_or (ready qs) (\<lambda>p. MAX' t (start p))) else INT_MAX)"
  "running_to_terminated (cand qs t) = sanitize1 (head_or (running qs) (\<lambda>p. remaining p + last_start p))"
  "running_to_waiting (cand qs t) = sanitize1 (head_or (running qs) (\<lambda>p. last_start p + iofreq p))"
  "waiting_to_ready (cand qs t) = sanitize1 (head_or (waiting qs) (\<lambda>p. last_io_start p + iodur p))"
  "running_to_ready (cand qs t) = sanitize1 (head_or (running qs) (\<lambda>p. last_start p + rr p))"
  by (simp_all add: cand_def sanitize_def raw_times_def sanitize1_INT_MAX)

lemma head_or_finite:
  assumes "sanitize1 (head_or q f) \<noteq> INT_MAX"
  obtains p rest where "q = p # rest" "head_or q f = f p"
  using assms by (cases q) (simp_all add: head_or_def sanitize1_INT_MAX)

lemma minimum_cases:
  "minimum tm = all_to_ready tm \<or> minimum tm = ready_to_running tm \<or>
   minimum tm = running_to_terminated tm \<or> minimum tm = running_to_waiting tm \<or>
   minimum tm = waiting_to_ready tm \<or> minimum tm = running_to_ready tm"
  by (simp add: minimum_def MIN'_def)

lemma get_next_move_unfold:
  "0 \<le>s t \<Longrightarrow>
   get_next_move qs t s =
     (case select_move (cand qs t) (minimum (cand qs t)) of
        None \<Rightarrow> Inr (INVALID_MOVE, qs)
      | Some (move, from, to) \<Rightarrow>
          ebind (execute_move qs from to move (minimum (cand qs t)) s)
            (\<lambda>qs'. Inr (minimum (cand qs t), qs')))"
  unfolding cand_def get_next_move_def
  by (simp add: event_times_eq ebind_Inr Let_def)

lemma get_next_move_cases [consumes 1, case_names Done W2R N2R R2R R2W R2T Rdy2Run]:
  assumes "0 \<le>s t"
  obtains
    "minimum (cand qs t) = INT_MAX" "get_next_move qs t s = Inr (INVALID_MOVE, qs)"
  | p rest where "waiting qs = p # rest" "minimum (cand qs t) \<noteq> INT_MAX"
      "minimum (cand qs t) = sanitize1 (last_io_start p + iodur p)"
      "get_next_move qs t s =
         Inr (minimum (cand qs t),
           qs\<lparr>waiting := rest, ready := resort s (ready qs @ [p]),
              written := written qs @
                [(file_of s, (minimum (cand qs t), pid p, WAITING_STATE, READY_STATE))]\<rparr>)"
  | p rest where "all qs = p # rest" "minimum (cand qs t) \<noteq> INT_MAX"
      "minimum (cand qs t) = sanitize1 (start p)"
      "minimum (cand qs t) \<noteq> waiting_to_ready (cand qs t)"
      "get_next_move qs t s =
         Inr (minimum (cand qs t),
           qs\<lparr>all := rest, ready := resort s (ready qs @ [p]),
              written := written qs @
                [(file_of s, (minimum (cand qs t), pid p, NEW_STATE, READY_STATE))]\<rparr>)"
  | p rest where "running qs = p # rest" "minimum (cand qs t) \<noteq> INT_MAX"
      "minimum (cand qs t) = sanitize1 (last_start p + rr p)"
      "minimum (cand qs t) \<noteq> waiting_to_ready (cand qs t)"
      "minimum (cand qs t) \<noteq> all_to_ready (cand qs t)"
      "get_next_move qs t s =
         Inr (minimum (cand qs t),
           qs\<lparr>running := rest,
              ready := resort s (ready qs @ [p\<lparr>remaining := remaining p - rr p\<rparr>]),
              written := written qs @
                [(file_of s, (minimum (cand qs t), pid p, RUNNING_STATE, READY_STATE))]\<rparr>)"
  | p rest where "running qs = p # rest" "minimum (cand qs t) \<noteq> INT_MAX"
      "minimum (cand qs t) = sanitize1 (last_start p + iofreq p)"
      "minimum (cand qs t) \<noteq> waiting_to_ready (cand qs t)"
      "minimum (cand qs t) \<noteq> all_to_ready (cand qs t)"
      "minimum (cand qs t) \<noteq> running_to_ready (cand qs t)"
      "get_next_move qs t s =
         Inr (minimum (cand qs t),
           qs\<lparr>running := rest,
              waiting := waiting qs @
                [p\<lparr>remaining := remaining p - iofreq p,
                   last_io_start := minimum (cand qs t)\<rparr>],
              written := written qs @
                [(file_of s, (minimum (cand qs t), pid p, RUNNING_STATE, WAITING_STATE))]\<rparr>)"
  | p rest where "running qs = p # rest" "minimum (cand qs t) \<noteq> INT_MAX"
      "minimum (cand qs t) = sanitize1 (remaining p + last_start p)"
      "minimum (cand qs t) \<noteq> waiting_to_ready (cand qs t)"
      "minimum (cand qs t) \<noteq> all_to_ready (cand qs t)"
      "minimum (cand qs t) \<noteq> running_to_ready (cand qs t)"
      "minimum (cand qs t) \<noteq> running_to_waiting (cand qs t)"
      "get_next_move qs t s =
         Inr (minimum (cand qs t),
           qs\<lparr>running := rest,
              terminated := terminated qs @ [p\<lparr>remaining := 0\<rparr>],
              written := written qs @
                [(file_of s, (minimum (cand qs t), pid p, RUNNING_STATE, TERMINATED_STATE))]\<rparr>)"
  | p rest where "ready qs = p # rest" "running qs = []" "minimum (cand qs t) \<noteq> INT_MAX"
      "minimum (cand qs t) = sanitize1 (MAX' t (start p))"
      "minimum (cand qs t) \<noteq> waiting_to_ready (cand qs t)"
      "minimum (cand qs t) \<noteq> all_to_ready (cand qs t)"
      "minimum (cand qs t) \<noteq> running_to_ready (cand qs t)"
      "minimum (cand qs t) \<noteq> running_to_waiting (cand qs t)"
      "minimum (cand qs t) \<noteq> running_to_terminated (cand qs t)"
      "get_next_move qs t s =
         Inr (minimum (cand qs t),
           qs\<lparr>ready := rest,
              running := [p\<lparr>last_start := minimum (cand qs t)\<rparr>],
              written := written qs @
                [(file_of s, (minimum (cand qs t), pid p, READY_STATE, RUNNING_STATE))]\<rparr>)"
proof -
  let ?tm = "cand qs t"
  let ?m = "minimum ?tm"
  note u = get_next_move_unfold [OF assms, of qs s]
  show thesis
  proof (cases "?m = INT_MAX")
    case True
    have "get_next_move qs t s = Inr (INVALID_MOVE, qs)"
      unfolding u by (simp add: select_move_def True)
    with True show thesis by (rule that(1))
  next
    case fin: False
    show thesis
    proof (cases "?m = waiting_to_ready ?tm")
      case True
      from True fin have "sanitize1 (head_or (waiting qs) (\<lambda>p. last_io_start p + iodur p)) \<noteq> INT_MAX"
        by (simp add: cand_simps(5))
      then obtain p rest where q: "waiting qs = p # rest"
        and e: "head_or (waiting qs) (\<lambda>p. last_io_start p + iodur p) = last_io_start p + iodur p"
        by (rule head_or_finite)
      have sel: "select_move ?tm ?m = Some (WAITING_TO_READY, P_waiting, P_ready)"
        using fin True by (simp add: select_move_def)
      have m: "?m = sanitize1 (last_io_start p + iodur p)"
        using True e by (simp add: cand_simps(5))
      show thesis
        by (rule that(2) [OF q fin m]) (simp add: u sel execute_move_W2R [OF q] ebind_Inr)
    next
      case n1: False
      show thesis
      proof (cases "?m = all_to_ready ?tm")
        case True
        from True fin have "sanitize1 (head_or (all qs) start) \<noteq> INT_MAX"
          by (simp add: cand_simps(1))
        then obtain p rest where q: "all qs = p # rest"
          and e: "head_or (all qs) start = start p"
          by (rule head_or_finite)
        have sel: "select_move ?tm ?m = Some (NEW_TO_READY, P_all, P_ready)"
          using fin True n1 by (simp add: select_move_def)
        have m: "?m = sanitize1 (start p)"
          using True e by (simp add: cand_simps(1))
        show thesis
          by (rule that(3) [OF q fin m n1]) (simp add: u sel execute_move_N2R [OF q] ebind_Inr)
      next
        case n2: False
        show thesis
        proof (cases "?m = running_to_ready ?tm")
          case True
          from True fin have "sanitize1 (head_or (running qs) (\<lambda>p. last_start p + rr p)) \<noteq> INT_MAX"
            by (simp add: cand_simps(6))
          then obtain p rest where q: "running qs = p # rest"
            and e: "head_or (running qs) (\<lambda>p. last_start p + rr p) = last_start p + rr p"
            by (rule head_or_finite)
          have sel: "select_move ?tm ?m = Some (RUNNING_TO_READY, P_running, P_ready)"
            using fin True n1 n2 by (simp add: select_move_def)
          have m: "?m = sanitize1 (last_start p + rr p)"
            using True e by (simp add: cand_simps(6))
          show thesis
            by (rule that(4) [OF q fin m n1 n2])
              (simp add: u sel execute_move_R2R [OF q] ebind_Inr)
        next
          case n3: False
          show thesis
          proof (cases "?m = running_to_waiting ?tm")
            case True
            from True fin
            have "sanitize1 (head_or (running qs) (\<lambda>p. last_start p + iofreq p)) \<noteq> INT_MAX"
              by (simp add: cand_simps(4))
            then obtain p rest where q: "running qs = p # rest"
              and e: "head_or (running qs) (\<lambda>p. last_start p + iofreq p) = last_start p + iofreq p"
              by (rule head_or_finite)
            have sel: "select_move ?tm ?m = Some (RUNNING_TO_WAITING, P_running, P_waiting)"
              using fin True n1 n2 n3 by (simp add: select_move_def)
            have m: "?m = sanitize1 (last_start p + iofreq p)"
              using True e by (simp add: cand_simps(4))
            show thesis
              by (rule that(5) [OF q fin m n1 n2 n3])
                (simp add: u sel execute_move_R2W [OF q] ebind_Inr)
          next
            case n4: False
            show thesis
            proof (cases "?m = running_to_terminated ?tm")
              case True
              from True fin
              have "sanitize1 (head_or (running qs) (\<lambda>p. remaining p + last_start p)) \<noteq> INT_MAX"
                by (simp add: cand_simps(3))
              then obtain p rest where q: "running qs = p # rest"
                and e: "head_or (running qs) (\<lambda>p. remaining p + last_start p) = remaining p + last_start p"
                by (rule head_or_finite)
              have sel: "select_move ?tm ?m = Some (RUNNING_TO_TERMINATED, P_running, P_terminated)"
                using fin True n1 n2 n3 n4 by (simp add: select_move_def)
              have m: "?m = sanitize1 (remaining p + last_start p)"
                using True e by (simp add: cand_simps(3))
              show thesis
                by (rule that(6) [OF q fin m n1 n2 n3 n4])
                  (simp add: u sel execute_move_R2T [OF q] ebind_Inr)
            next
              case n5: False
              with n1 n2 n3 n4 have True: "?m = ready_to_running ?tm"
                using minimum_cases [of ?tm] by blast
              have r: "running qs = []"
              proof (rule ccontr)
                assume "running qs \<noteq> []"
                then have "ready_to_running ?tm = INT_MAX" by (simp add: cand_simps(2))
                with True fin show False by simp
              qed
              from True fin r
              have "sanitize1 (head_or (ready qs) (\<lambda>p. MAX' t (start p))) \<noteq> INT_MAX"
                by (simp add: cand_simps(2))
              then obtain p rest where q: "ready qs = p # rest"
                and e: "head_or (ready qs) (\<lambda>p. MAX' t (start p)) = MAX' t (start p)"
                by (rule head_or_finite)
              have sel: "select_move ?tm ?m = Some (READY_TO_RUNNING, P_ready, P_running)"
                using fin True n1 n2 n3 n4 n5 by (simp add: select_move_def)
              have m: "?m = sanitize1 (MAX' t (start p))"
                using True e r by (simp add: cand_simps(2))
              show thesis
                by (rule that(7) [OF q r fin m n1 n2 n3 n4 n5])
                  (simp add: u sel execute_move_Rdy2Run [OF q r] ebind_Inr)
            qed
          qed
        qed
      qed
    qed
  qed
qed

lemma event_times_raw: "event_times qs t = Inr raw \<Longrightarrow> sanitize raw = cand qs t"
  by (simp add: event_times_eq cand_def)

lemma time_of_head:
  "waiting qs = p # rest \<Longrightarrow>
     waiting_to_ready (cand qs t) = sanitize1 (last_io_start p + iodur p)"
  "all qs = p # rest \<Longrightarrow> all_to_ready (cand qs t) = sanitize1 (start p)"
  "running qs = p # rest \<Longrightarrow>
     running_to_ready (cand qs t) = sanitize1 (last_start p + rr p)"
  "running qs = p # rest \<Longrightarrow>
     running_to_waiting (cand qs t) = sanitize1 (last_start p + iofreq p)"
  "running qs = p # rest \<Longrightarrow>
     running_to_terminated (cand qs t) = sanitize1 (remaining p + last_start p)"
  "ready qs = p # rest \<Longrightarrow> running qs = [] \<Longrightarrow>
     ready_to_running (cand qs t) = sanitize1 (MAX' t (start p))"
  by (simp_all add: cand_simps head_or_def)

lemma forall_move:
  "(\<forall>m. P m) \<longleftrightarrow>
     P WAITING_TO_READY \<and> P NEW_TO_READY \<and> P RUNNING_TO_READY \<and> P RUNNING_TO_WAITING \<and>
     P RUNNING_TO_TERMINATED \<and> P READY_TO_RUNNING"
proof
  assume r: "P WAITING_TO_READY \<and> P NEW_TO_READY \<and> P RUNNING_TO_READY \<and>
    P RUNNING_TO_WAITING \<and> P RUNNING_TO_TERMINATED \<and> P READY_TO_RUNNING"
  show "\<forall>m. P m"
  proof
    fix m show "P m" using r by (cases m) simp_all
  qed
qed simp

lemma sint_minimum:
  "sint (minimum tm) =
     min (min (min (min (min (sint (all_to_ready tm)) (sint (ready_to_running tm)))
       (sint (running_to_terminated tm))) (sint (running_to_waiting tm)))
       (sint (waiting_to_ready tm))) (sint (running_to_ready tm))"
  by (simp add: minimum_def sint_MIN')

lemma minimum_le: "sint (minimum tm) \<le> sint (time_of tm m)"
  by (cases m) (simp_all add: sint_minimum)

lemma minimum_INT_MAX_iff: "minimum tm = INT_MAX \<longleftrightarrow> (\<forall>m. time_of tm m = INT_MAX)"
proof
  assume a: "minimum tm = INT_MAX"
  show "\<forall>m. time_of tm m = INT_MAX"
  proof
    fix m
    have "sint (time_of tm m) = sint INT_MAX"
      using minimum_le [of tm m] sint_range32 [of "time_of tm m"] a by (simp add: sint_INT_MAX)
    then show "time_of tm m = INT_MAX" by (simp add: sint_inject32)
  qed
next
  assume "\<forall>m. time_of tm m = INT_MAX"
  then show "minimum tm = INT_MAX"
    by (simp add: forall_move minimum_def MIN'_def)
qed

lemma sanitize1_nonneg: "0 \<le> sint (sanitize1 x)"
  by (simp add: sint_sanitize1)

lemma time_of_sanitize: "time_of (sanitize raw) m = sanitize1 (time_of raw m)"
  by (cases m) (simp_all add: sanitize_def)

lemma minimum_sanitize_nonneg: "0 \<le> sint (minimum (sanitize raw))"
  using minimum_cases [of "sanitize raw"] sanitize1_nonneg
  by (auto simp: sanitize_def)

lemma minimum_not_INVALID_MOVE: "minimum (sanitize raw) \<noteq> INVALID_MOVE"
  using minimum_sanitize_nonneg [of raw] by (auto simp: sint_INVALID_MOVE)

lemma select_move_Some:
  "select_move tm v = Some (m, f, d) \<Longrightarrow>
     v \<noteq> INT_MAX \<and> v = time_of tm m \<and> f = source m \<and> d = destination m"
  by (auto simp: select_move_def split: if_splits)

subsection \<open>The merge sort keeps the elements\<close>

lemma mset_g_list_sort_merge: "mset (g_list_sort_merge l1 l2 c) = mset l1 + mset l2"
  by (induction l1 l2 c rule: g_list_sort_merge.induct) simp_all

lemma mset_g_list_sort_real: "mset (g_list_sort_real l c) = mset l"
proof (induction l c rule: g_list_sort_real.induct)
  case (1 l c)
  show ?case
  proof (cases "length l \<le> 1")
    case True
    then show ?thesis by (simp add: g_list_sort_real.simps [of l])
  next
    case False
    have "mset (take (length l div 2) l) + mset (drop (length l div 2) l) = mset l"
      by (metis append_take_drop_id mset_append)
    with False 1 show ?thesis
      by (simp add: g_list_sort_real.simps [of l] mset_g_list_sort_merge)
  qed
qed

lemma mset_g_queue_sort: "mset (g_queue_sort q c) = mset q"
  by (simp add: g_queue_sort_def mset_g_list_sort_real)

lemma mset_resort: "mset (resort s q) = mset q"
  by (cases s) (simp_all add: resort_def mset_g_queue_sort)

lemma set_resort: "set (resort s q) = set q"
  using mset_resort [of s q] by (metis set_mset_mset)

lemma length_resort: "length (resort s q) = length q"
  using mset_resort [of s q] by (metis size_mset)

subsection \<open>Running the engine on a concrete state\<close>

lemma exec_W2R:
  "execute_move qs P_waiting P_ready WAITING_TO_READY t s =
     (case waiting qs of
        [] \<Rightarrow> Inl AssertionFailed
      | p # rest \<Rightarrow>
          Inr (qs\<lparr>waiting := rest, ready := resort s (ready qs @ [p]),
                  written := written qs @
                    [(file_of s, (t, pid p, WAITING_STATE, READY_STATE))]\<rparr>))"
  by (cases "waiting qs")
    (simp_all add: execute_move_W2R, simp add: execute_move_def move_process_def ebind_def)

lemma exec_N2R:
  "execute_move qs P_all P_ready NEW_TO_READY t s =
     (case all qs of
        [] \<Rightarrow> Inl AssertionFailed
      | p # rest \<Rightarrow>
          Inr (qs\<lparr>all := rest, ready := resort s (ready qs @ [p]),
                  written := written qs @ [(file_of s, (t, pid p, NEW_STATE, READY_STATE))]\<rparr>))"
  by (cases "all qs")
    (simp_all add: execute_move_N2R, simp add: execute_move_def move_process_def ebind_def)

lemma exec_R2R:
  "execute_move qs P_running P_ready RUNNING_TO_READY t s =
     (case running qs of
        [] \<Rightarrow> Inl AssertionFailed
      | p # rest \<Rightarrow>
          Inr (qs\<lparr>running := rest,
                  ready := resort s (ready qs @ [p\<lparr>remaining := remaining p - rr p\<rparr>]),
                  written := written qs @
                    [(file_of s, (t, pid p, RUNNING_STATE, READY_STATE))]\<rparr>))"
  by (cases "running qs")
    (simp_all add: execute_move_R2R, simp add: execute_move_def move_process_def ebind_def)

lemma exec_R2W:
  "execute_move qs P_running P_waiting RUNNING_TO_WAITING t s =
     (case running qs of
        [] \<Rightarrow> Inl AssertionFailed
      | p # rest \<Rightarrow>
          Inr (qs\<lparr>running := rest,
                  waiting := waiting qs @
                    [p\<lparr>remaining := remaining p - iofreq p, last_io_start := t\<rparr>],
                  written := written qs @
                    [(file_of s, (t, pid p, RUNNING_STATE, WAITING_STATE))]\<rparr>))"
  by (cases "running qs")
    (simp_all add: execute_move_R2W, simp add: execute_move_def move_process_def ebind_def)

lemma exec_R2T:
  "execute_move qs P_running P_terminated RUNNING_TO_TERMINATED t s =
     (case running qs of
        [] \<Rightarrow> Inl AssertionFailed
      | p # rest \<Rightarrow>
          Inr (qs\<lparr>running := rest,
                  terminated := terminated qs @ [p\<lparr>remaining := 0\<rparr>],
                  written := written qs @
                    [(file_of s, (t, pid p, RUNNING_STATE, TERMINATED_STATE))]\<rparr>))"
  by (cases "running qs")
    (simp_all add: execute_move_R2T, simp add: execute_move_def move_process_def ebind_def)

lemma exec_Rdy2Run:
  "running qs = [] \<Longrightarrow>
   execute_move qs P_ready P_running READY_TO_RUNNING t s =
     (case ready qs of
        [] \<Rightarrow> Inl AssertionFailed
      | p # rest \<Rightarrow>
          Inr (qs\<lparr>ready := rest,
                  running := [p\<lparr>last_start := t\<rparr>],
                  written := written qs @
                    [(file_of s, (t, pid p, READY_STATE, RUNNING_STATE))]\<rparr>))"
  by (cases "ready qs")
    (simp_all add: execute_move_Rdy2Run, simp add: execute_move_def move_process_def ebind_def)

lemma get_next_move_eval:
  "get_next_move qs t s =
     (if \<not> 0 \<le> sint t then Inl AssertionFailed
      else let tm = cand qs t; v = minimum tm in
        (case select_move tm v of
           None \<Rightarrow> Inr (INVALID_MOVE, qs)
         | Some (move, from, to) \<Rightarrow>
             ebind (execute_move qs from to move v s) (\<lambda>qs'. Inr (v, qs'))))"
  unfolding cand_def get_next_move_def
  by (simp add: event_times_eq ebind_Inr Let_def sle_sint)

lemmas eval_step =
  get_next_move_eval cand_def raw_times_def head_or_def sanitize_def sanitize1_def minimum_def
  select_move_def exec_W2R exec_N2R exec_R2R exec_R2W exec_R2T exec_Rdy2Run ebind_Inr
  MIN'_def MAX'_def INT_MAX_def INVALID_MOVE_def sless_sint Let_def resort_def file_of_def
  mk_def

lemmas eval_load =
  load_def parse_file.simps process_new_def ebind_Inr sle_sint sless_sint INT_MAX_def
  g_queue_sort_def g_list_sort_real.simps g_list_sort_merge.simps sort_fcfs_def mk_def

lemma iterate_step:
  "get_next_move qs t s = Inr (t', qs') \<Longrightarrow> t' \<noteq> INVALID_MOVE \<Longrightarrow>
     iterate (Suc n) s (t, qs) = iterate n s (t', qs')"
  by simp

lemma run_iterate:
  "run s qs0 (t, qs) \<Longrightarrow> iterate n s (t, qs) = Inr (t', qs') \<Longrightarrow> t' \<noteq> INVALID_MOVE \<Longrightarrow>
     run s qs0 (t', qs')"
proof (induction n arbitrary: t qs)
  case 0
  then show ?case by simp
next
  case (Suc n)
  from Suc.prems(2) obtain t1 qs1 where g: "get_next_move qs t s = Inr (t1, qs1)"
    by (cases "get_next_move qs t s") auto
  show ?case
  proof (cases "t1 = INVALID_MOVE")
    case True
    with g Suc.prems(2,3) show ?thesis by simp
  next
    case False
    from Suc.prems(1) g False have "run s qs0 (t1, qs1)" by (rule run.step)
    moreover from g False Suc.prems(2) have "iterate n s (t1, qs1) = Inr (t', qs')" by simp
    ultimately show ?thesis using Suc.prems(3) by (rule Suc.IH)
  qed
qed

subsection \<open>The concrete states\<close>

lemma tie_state_times: "event_times tie_state 4 = Inr tie_raw"
  by (simp add: event_times_eq raw_times_def tie_state_def tie_raw_def head_or_def)

lemma tie_raw_minimum: "minimum (sanitize tie_raw) = 5"
  by (simp add: minimum_def sanitize_def sanitize1_def tie_raw_def MIN'_def INT_MAX_def sless_sint)

subsection \<open>The transition that a call executes\<close>

lemma get_next_move_fires:
  assumes "0 \<le>s t" and fin: "minimum (cand qs t) \<noteq> INT_MAX"
  shows "\<exists>m p rest qs'.
           find (\<lambda>m. time_of (cand qs t) m = minimum (cand qs t)) tie_break_order = Some m \<and>
           deref qs (source m) = p # rest \<and>
           execute_move qs (source m) (destination m) m (minimum (cand qs t)) s = Inr qs' \<and>
           get_next_move qs t s = Inr (minimum (cand qs t), qs') \<and>
           written qs' = written qs @
             [(file_of s, (minimum (cand qs t), pid p, old_state m, new_state m))]"
  using assms(1)
proof (cases rule: get_next_move_cases [where t = t and qs = qs and s = s])
  case Done
  with fin show ?thesis by simp
next
  case (W2R p rest)
  have "find (\<lambda>m. time_of (cand qs t) m = (minimum (cand qs t))) tie_break_order = Some WAITING_TO_READY"
    using W2R(1,3) by (simp add: tie_break_order_def time_of_head(1))
  then show ?thesis
    using W2R by (intro exI [of _ WAITING_TO_READY] exI [of _ p] exI [of _ rest])
      (simp add: execute_move_W2R)
next
  case (N2R p rest)
  have "find (\<lambda>m. time_of (cand qs t) m = (minimum (cand qs t))) tie_break_order = Some NEW_TO_READY"
    using N2R(1,3,4) by (simp add: tie_break_order_def time_of_head(2))
  then show ?thesis
    using N2R by (intro exI [of _ NEW_TO_READY] exI [of _ p] exI [of _ rest])
      (simp add: execute_move_N2R)
next
  case (R2R p rest)
  have "find (\<lambda>m. time_of (cand qs t) m = (minimum (cand qs t))) tie_break_order = Some RUNNING_TO_READY"
    using R2R(1,3,4,5) by (simp add: tie_break_order_def time_of_head(3))
  then show ?thesis
    using R2R by (intro exI [of _ RUNNING_TO_READY] exI [of _ p] exI [of _ rest])
      (simp add: execute_move_R2R)
next
  case (R2W p rest)
  have "find (\<lambda>m. time_of (cand qs t) m = (minimum (cand qs t))) tie_break_order = Some RUNNING_TO_WAITING"
    using R2W(1,3,4,5,6) by (simp add: tie_break_order_def time_of_head(4))
  then show ?thesis
    using R2W by (intro exI [of _ RUNNING_TO_WAITING] exI [of _ p] exI [of _ rest])
      (simp add: execute_move_R2W)
next
  case (R2T p rest)
  have "find (\<lambda>m. time_of (cand qs t) m = (minimum (cand qs t))) tie_break_order = Some RUNNING_TO_TERMINATED"
    using R2T(1,3,4,5,6,7) by (simp add: tie_break_order_def time_of_head(5))
  then show ?thesis
    using R2T by (intro exI [of _ RUNNING_TO_TERMINATED] exI [of _ p] exI [of _ rest])
      (simp add: execute_move_R2T)
next
  case (Rdy2Run p rest)
  have "find (\<lambda>m. time_of (cand qs t) m = (minimum (cand qs t))) tie_break_order = Some READY_TO_RUNNING"
    using Rdy2Run(1,2,4,5,6,7,8,9) by (simp add: tie_break_order_def time_of_head(6))
  then show ?thesis
    using Rdy2Run by (intro exI [of _ READY_TO_RUNNING] exI [of _ p] exI [of _ rest])
      (simp add: execute_move_Rdy2Run)
qed

lemma move_of_states:
  "old_state m = old_state m' \<Longrightarrow> new_state m = new_state m' \<Longrightarrow> m = m'"
  by (cases m; cases m') simp_all

subsection \<open>What a call that returned has done\<close>

lemma get_next_move_Inr_nonneg: "get_next_move qs t s = Inr r \<Longrightarrow> 0 \<le>s t"
  by (simp add: get_next_move_def split: if_splits)

lemma step_cases [consumes 1, case_names Done W2R N2R R2R R2W R2T Rdy2Run]:
  assumes "get_next_move qs t s = Inr (t', qs')"
  obtains
    "t' = INVALID_MOVE" "qs' = qs"
  | p rest where "waiting qs = p # rest" "t' = minimum (cand qs t)" "t' \<noteq> INT_MAX"
      "t' = sanitize1 (last_io_start p + iodur p)"
      "qs' = qs\<lparr>waiting := rest, ready := resort s (ready qs @ [p]),
              written := written qs @ [(file_of s, (t', pid p, WAITING_STATE, READY_STATE))]\<rparr>"
  | p rest where "all qs = p # rest" "t' = minimum (cand qs t)" "t' \<noteq> INT_MAX"
      "t' = sanitize1 (start p)"
      "qs' = qs\<lparr>all := rest, ready := resort s (ready qs @ [p]),
              written := written qs @ [(file_of s, (t', pid p, NEW_STATE, READY_STATE))]\<rparr>"
  | p rest where "running qs = p # rest" "t' = minimum (cand qs t)" "t' \<noteq> INT_MAX"
      "t' = sanitize1 (last_start p + rr p)"
      "qs' = qs\<lparr>running := rest,
              ready := resort s (ready qs @ [p\<lparr>remaining := remaining p - rr p\<rparr>]),
              written := written qs @ [(file_of s, (t', pid p, RUNNING_STATE, READY_STATE))]\<rparr>"
  | p rest where "running qs = p # rest" "t' = minimum (cand qs t)" "t' \<noteq> INT_MAX"
      "t' = sanitize1 (last_start p + iofreq p)"
      "qs' = qs\<lparr>running := rest,
              waiting := waiting qs @
                [p\<lparr>remaining := remaining p - iofreq p, last_io_start := t'\<rparr>],
              written := written qs @ [(file_of s, (t', pid p, RUNNING_STATE, WAITING_STATE))]\<rparr>"
  | p rest where "running qs = p # rest" "t' = minimum (cand qs t)" "t' \<noteq> INT_MAX"
      "t' = sanitize1 (remaining p + last_start p)"
      "qs' = qs\<lparr>running := rest,
              terminated := terminated qs @ [p\<lparr>remaining := 0\<rparr>],
              written := written qs @
                [(file_of s, (t', pid p, RUNNING_STATE, TERMINATED_STATE))]\<rparr>"
  | p rest where "ready qs = p # rest" "running qs = []" "t' = minimum (cand qs t)"
      "t' \<noteq> INT_MAX" "t' = sanitize1 (MAX' t (start p))"
      "qs' = qs\<lparr>ready := rest,
              running := [p\<lparr>last_start := t'\<rparr>],
              written := written qs @ [(file_of s, (t', pid p, READY_STATE, RUNNING_STATE))]\<rparr>"
proof -
  have "0 \<le>s t" using assms by (rule get_next_move_Inr_nonneg)
  then show thesis
  proof (cases rule: get_next_move_cases [where t = t and qs = qs and s = s])
    case Done
    with assms show ?thesis by (intro that(1)) simp_all
  next
    case (W2R p rest)
    from assms W2R(4) have e: "t' = minimum (cand qs t)" by simp
    show ?thesis
      apply (rule that(2) [of p rest])
      using assms W2R unfolding e by simp_all
  next
    case (N2R p rest)
    from assms N2R(5) have e: "t' = minimum (cand qs t)" by simp
    show ?thesis
      apply (rule that(3) [of p rest])
      using assms N2R unfolding e by simp_all
  next
    case (R2R p rest)
    from assms R2R(6) have e: "t' = minimum (cand qs t)" by simp
    show ?thesis
      apply (rule that(4) [of p rest])
      using assms R2R unfolding e by simp_all
  next
    case (R2W p rest)
    from assms R2W(7) have e: "t' = minimum (cand qs t)" by simp
    show ?thesis
      apply (rule that(5) [of p rest])
      using assms R2W unfolding e by simp_all
  next
    case (R2T p rest)
    from assms R2T(8) have e: "t' = minimum (cand qs t)" by simp
    show ?thesis
      apply (rule that(6) [of p rest])
      using assms R2T unfolding e by simp_all
  next
    case (Rdy2Run p rest)
    from assms Rdy2Run(10) have e: "t' = minimum (cand qs t)" by simp
    show ?thesis
      apply (rule that(7) [of p rest])
      using assms Rdy2Run unfolding e by simp_all
  qed
qed

lemma short_io_load: "load [(fresh_block, (1, 0, 2, 2, 1, 0))] = Inr short_io_0"
  by (simp add: eval_load fresh_block_def short_io_0_def)

lemma short_io_step1: "get_next_move short_io_0 0 FCFS_SORT = Inr (0, short_io_1)"
  by (simp add: eval_step short_io_0_def short_io_1_def)

lemma short_io_step2: "get_next_move short_io_1 0 FCFS_SORT = Inr (0, short_io_2)"
  by (simp add: eval_step short_io_1_def short_io_2_def)

lemma short_io_step3: "get_next_move short_io_2 0 FCFS_SORT = Inr (2, short_io_3)"
  by (simp add: eval_step short_io_2_def short_io_3_def)

lemma short_io_run0: "run FCFS_SORT short_io_0 (0, short_io_0)"
  using run.start [of FCFS_SORT short_io_0] by (simp add: INITIAL_TIME_def)

lemma short_io_run1: "run FCFS_SORT short_io_0 (0, short_io_1)"
  by (rule run.step [OF short_io_run0 short_io_step1]) (simp add: INVALID_MOVE_def)

lemma short_io_run2: "run FCFS_SORT short_io_0 (0, short_io_2)"
  by (rule run.step [OF short_io_run1 short_io_step2]) (simp add: INVALID_MOVE_def)

lemma short_io_run3: "run FCFS_SORT short_io_0 (2, short_io_3)"
  by (rule run.step [OF short_io_run2 short_io_step3]) (simp add: INVALID_MOVE_def)

lemma short_io_initial: "initial short_io_0"
  by (simp add: initial_def short_io_0_def)

subsection \<open>Subtraction without wrap-around\<close>

lemma sint_sub32:
  assumes "0 \<le> sint (a :: int32)" and "0 \<le> sint b"
  shows "sint (a - b) = sint a - sint b"
proof -
  have r: "- 2147483648 \<le> sint a - sint b \<and> sint a - sint b < 2147483648"
    using assms sint_range32 [of a] sint_range32 [of b] by simp
  have "sint (a - b) = signed_take_bit 31 (sint a - sint b)"
    by (simp add: sint_word_ariths)
  also have "\<dots> = sint a - sint b"
    using r by (simp add: signed_take_bit_int_eq_self)
  finally show ?thesis .
qed

lemma resort_single: "resort s [x] = [x]"
  by (cases s) (simp_all add: resort_def g_queue_sort_def g_list_sort_real.simps)

subsection \<open>The burst that is left\<close>

lemma slice_fits:
  assumes "0 \<le> sint ls" and "0 < sint x" and "0 \<le> sint r"
    and "sanitize1 (ls + x) \<noteq> INT_MAX"
    and "sint (sanitize1 (ls + x)) \<le> sint (sanitize1 (r + ls))"
  shows "sint x \<le> sint r"
proof -
  have rx: "sint ls + sint x \<le> 2147483647"
  proof (rule ccontr)
    assume "\<not> sint ls + sint x \<le> 2147483647"
    then have "sint (ls + x) < 0"
      using sint_range32 [of ls] sint_range32 [of x] by (simp add: sint_add32)
    then have "sanitize1 (ls + x) = INT_MAX" by (simp add: sanitize1_def sless_sint)
    with assms(4) show False by simp
  qed
  then have e: "sint (sanitize1 (ls + x)) = sint ls + sint x"
    using assms(1,2) by (simp add: sint_sanitize1 sint_add32)
  show ?thesis
  proof (cases "sint r + sint ls \<le> 2147483647")
    case True
    then have "sint (sanitize1 (r + ls)) = sint r + sint ls"
      using assms(1,3) by (simp add: sint_sanitize1 sint_add32)
    with e assms(5) show ?thesis by simp
  next
    case False
    with rx show ?thesis by simp
  qed
qed

lemma burst_ok_slice:
  assumes "burst_ok p" and "0 < sint x" and "sint x \<le> sint (remaining p)"
  shows "burst_ok (p\<lparr>remaining := remaining p - x\<rparr>)"
    and "remaining p - x \<le>s remaining p"
proof -
  have "sint (remaining p - x) = sint (remaining p) - sint x"
    using assms by (intro sint_sub32) (simp_all add: burst_ok_def sle_sint)
  with assms show "burst_ok (p\<lparr>remaining := remaining p - x\<rparr>)"
    and "remaining p - x \<le>s remaining p"
    by (simp_all add: burst_ok_def sle_sint sless_sint)
qed

lemma run_time_nonneg: "run s qs0 (t, qs) \<Longrightarrow> 0 \<le> sint t"
proof (induction "(t, qs)" arbitrary: t qs rule: run.induct)
  case start
  show ?case by (simp add: INITIAL_TIME_def)
next
  case (step t qs t' qs')
  from step(3) have "0 \<le>s t" by (rule get_next_move_Inr_nonneg)
  then have "get_next_move qs t s =
      (case select_move (cand qs t) (minimum (cand qs t)) of
         None \<Rightarrow> Inr (INVALID_MOVE, qs)
       | Some (move, from, to) \<Rightarrow>
           ebind (execute_move qs from to move (minimum (cand qs t)) s)
             (\<lambda>qs'. Inr (minimum (cand qs t), qs')))"
    by (rule get_next_move_unfold)
  with step(3,4) have "t' = minimum (cand qs t)"
    by (auto simp: ebind_def split: option.splits sum.splits)
  then show ?case using minimum_sanitize_nonneg [of "raw_times qs t"] by (simp add: cand_def)
qed

lemma running_bound:
  assumes "running qs = p # rest" and "t' = minimum (cand qs t)"
  shows "sint t' \<le> sint (sanitize1 (remaining p + last_start p))"
  using minimum_le [of "cand qs t" RUNNING_TO_TERMINATED] assms
  by (simp add: time_of_head(5))

lemma burst_step:
  assumes "get_next_move qs t s = Inr (t', qs')" and "t' \<noteq> INVALID_MOVE" and "burst_inv qs"
  shows "burst_inv qs' \<and> (\<exists>p p'. one_changed qs qs' p p')"
  using assms(1)
proof (cases rule: step_cases)
  case Done
  with assms(2) show ?thesis by simp
next
  case (W2R p rest)
  have "burst_inv qs'"
    using assms(3) W2R(1,5) by (auto simp: burst_inv_def procs_def set_resort)
  moreover have "one_changed qs qs' p p"
    using W2R(1,5) by (simp add: one_changed_def procs_def mset_resort signed.order_refl)
  ultimately show ?thesis by blast
next
  case (N2R p rest)
  have "burst_inv qs'"
    using assms(3) N2R(1,5) by (auto simp: burst_inv_def procs_def set_resort)
  moreover have "one_changed qs qs' p p"
    using N2R(1,5) by (simp add: one_changed_def procs_def mset_resort signed.order_refl)
  ultimately show ?thesis by blast
next
  case (R2R p rest)
  let ?p' = "p\<lparr>remaining := remaining p - rr p\<rparr>"
  have ok: "burst_ok p" and ls: "0 \<le> sint (last_start p)"
    using assms(3) R2R(1) by (simp_all add: burst_inv_def procs_def sle_sint)
  have fit: "sint (rr p) \<le> sint (remaining p)"
    using ok ls R2R(3,4) running_bound [OF R2R(1,2)]
    by (intro slice_fits [of "last_start p" "rr p" "remaining p"])
      (simp_all add: burst_ok_def sle_sint sless_sint)
  have pos: "0 < sint (rr p)" using ok by (simp add: burst_ok_def sless_sint)
  note b = burst_ok_slice [OF ok pos fit]
  have "burst_inv qs'"
    using assms(3) R2R(1,5) b(1) by (auto simp: burst_inv_def procs_def set_resort)
  moreover have "one_changed qs qs' p ?p'"
    using R2R(1,5) b(2) by (simp add: one_changed_def procs_def mset_resort)
  ultimately show ?thesis by blast
next
  case (R2W p rest)
  let ?p' = "p\<lparr>remaining := remaining p - iofreq p, last_io_start := t'\<rparr>"
  have ok: "burst_ok p" and ls: "0 \<le> sint (last_start p)"
    using assms(3) R2W(1) by (simp_all add: burst_inv_def procs_def sle_sint)
  have fit: "sint (iofreq p) \<le> sint (remaining p)"
    using ok ls R2W(3,4) running_bound [OF R2W(1,2)]
    by (intro slice_fits [of "last_start p" "iofreq p" "remaining p"])
      (simp_all add: burst_ok_def sle_sint sless_sint)
  have pos: "0 < sint (iofreq p)" using ok by (simp add: burst_ok_def sless_sint)
  note b = burst_ok_slice [OF ok pos fit]
  have "burst_ok ?p'" using b(1) by (simp add: burst_ok_def)
  then have "burst_inv qs'"
    using assms(3) R2W(1,5) by (auto simp: burst_inv_def procs_def)
  moreover have "one_changed qs qs' p ?p'"
    using R2W(1,5) b(2) by (simp add: one_changed_def procs_def)
  ultimately show ?thesis by blast
next
  case (R2T p rest)
  let ?p' = "p\<lparr>remaining := 0\<rparr>"
  have ok: "burst_ok p"
    using assms(3) R2T(1) by (simp add: burst_inv_def procs_def)
  then have "burst_ok ?p'" and le: "0 \<le>s remaining p"
    by (auto simp: burst_ok_def sle_sint)
  then have "burst_inv qs'"
    using assms(3) R2T(1,5) by (auto simp: burst_inv_def procs_def)
  moreover have "one_changed qs qs' p ?p'"
    using R2T(1,5) le by (simp add: one_changed_def procs_def)
  ultimately show ?thesis by blast
next
  case (Rdy2Run p rest)
  let ?p' = "p\<lparr>last_start := t'\<rparr>"
  have ok: "burst_ok p"
    using assms(3) Rdy2Run(1) by (simp add: burst_inv_def procs_def)
  then have ok': "burst_ok ?p'" by (simp add: burst_ok_def)
  have "0 \<le>s t'" using Rdy2Run(5) by (simp add: sle_sint sanitize1_nonneg)
  with ok' have "burst_inv qs'"
    using assms(3) Rdy2Run(1,2,6) by (auto simp: burst_inv_def procs_def)
  moreover have "one_changed qs qs' p ?p'"
    using Rdy2Run(1,2,6) by (simp add: one_changed_def procs_def signed.order_refl)
  ultimately show ?thesis by blast
qed

subsection \<open>What loading establishes\<close>

lemma parse_file_well_formed:
  "parse_file lines acc = Inr q \<Longrightarrow> \<forall>p \<in> set acc. well_formed p \<Longrightarrow> \<forall>p \<in> set q. well_formed p"
proof (induction lines acc rule: parse_file.induct)
  case (1 queue)
  then show ?case by simp
next
  case (2 m pid' start' total'' iofreq' iodur' rr' rest queue)
  let ?f = "if iofreq' \<le>s 0 then INT_MAX else iofreq'"
  let ?d = "if iodur' \<le>s 0 then INT_MAX else iodur'"
  let ?r = "if rr' \<le>s 0 then INT_MAX else rr'"
  let ?t = "if total'' <s 0 then 0 else total''"
  let ?s = "if start' <s 0 then 0 else start'"
  from 2(2) obtain p where p: "process_new m pid' ?s ?t ?f ?d ?r = Inr p"
    and r: "parse_file rest (p # queue) = Inr q"
    by (cases "process_new m pid' ?s ?t ?f ?d ?r") (simp_all add: ebind_def Let_def)
  from p have "well_formed p"
    by (cases m)
      (auto simp: process_new_def well_formed_def sle_sint sless_sint sint_INT_MAX)
  with 2(3) have "\<forall>x \<in> set (p # queue). well_formed x" by simp
  from 2(1) [OF refl refl refl refl refl r this] show ?case .
qed

lemma load_initial:
  assumes "load lines = Inr qs0"
  shows "initial qs0" and "\<forall>p \<in> set (all qs0). well_formed p" and "written qs0 = []"
proof -
  from assms obtain q where q: "parse_file lines [] = Inr q"
    and e: "qs0 = \<lparr>all = g_queue_sort q sort_fcfs, ready = [], running = [], waiting = [],
      terminated = [], written = []\<rparr>"
    by (cases "parse_file lines []") (auto simp: load_def ebind_def)
  from e show "initial qs0" and "written qs0 = []" by (simp_all add: initial_def)
  from parse_file_well_formed [OF q] have "\<forall>p \<in> set q. well_formed p" by simp
  moreover have "set (all qs0) = set q"
    using e mset_g_queue_sort [of q sort_fcfs] by (metis set_mset_mset sim.select_convs(1))
  ultimately show "\<forall>p \<in> set (all qs0). well_formed p" by simp
qed

lemma burst_inv_initial:
  assumes "initial qs0" and "\<forall>p \<in> set (all qs0). well_formed p"
  shows "burst_inv qs0"
  using assms
  by (auto simp: burst_inv_def initial_def procs_def well_formed_def burst_ok_def
      signed.order_refl)

lemma completion_unchanged:
  assumes "get_next_move qs t s = Inr (INVALID_MOVE, qs')"
  shows "qs' = qs"
proof -
  have n: "INVALID_MOVE \<noteq> minimum (cand qs t)"
    using minimum_not_INVALID_MOVE [of "raw_times qs t"] by (simp add: cand_def)
  from assms show ?thesis
    by (cases rule: step_cases) (use n in simp_all)
qed

lemma burst_inv_step:
  assumes "get_next_move qs t s = Inr (t', qs')" and "burst_inv qs"
  shows "burst_inv qs'"
proof (cases "t' = INVALID_MOVE")
  case True
  with assms(1) have "qs' = qs" by (simp add: completion_unchanged)
  with assms(2) show ?thesis by simp
next
  case False
  with assms burst_step show ?thesis by blast
qed

lemma burst_inv_run:
  assumes "initial qs0" and "\<forall>p \<in> set (all qs0). well_formed p" and "run s qs0 (t, qs)"
  shows "burst_inv qs"
  using assms(3)
proof (induction "(t, qs)" arbitrary: t qs rule: run.induct)
  case start
  from assms(1,2) show ?case by (rule burst_inv_initial)
next
  case (step t qs t' qs')
  from step(3) step(2) show ?case by (rule burst_inv_step)
qed

subsection \<open>The example runs\<close>

lemma two_io_load: "load [(fresh_block, (1, 0, 10, 3, 1, 50)), (fresh_block, (2, 0, 10, 2, 100, 50))] = Inr two_io_0"
  by (simp add: eval_load fresh_block_def two_io_0_def)

lemma two_io_run0: "run FCFS_SORT two_io_0 (0, two_io_0)"
  using run.start [of FCFS_SORT two_io_0] by (simp add: INITIAL_TIME_def)

lemma two_io_step1: "get_next_move two_io_0 0 FCFS_SORT = Inr (0, two_io_1)"
  by (simp add: eval_step two_io_0_def two_io_1_def)

lemma two_io_run1: "run FCFS_SORT two_io_0 (0, two_io_1)"
  by (rule run.step [OF two_io_run0 two_io_step1]) (simp add: INVALID_MOVE_def)

lemma two_io_step2: "get_next_move two_io_1 0 FCFS_SORT = Inr (0, two_io_2)"
  by (simp add: eval_step two_io_1_def two_io_2_def)

lemma two_io_run2: "run FCFS_SORT two_io_0 (0, two_io_2)"
  by (rule run.step [OF two_io_run1 two_io_step2]) (simp add: INVALID_MOVE_def)

lemma two_io_step3: "get_next_move two_io_2 0 FCFS_SORT = Inr (0, two_io_3)"
  by (simp add: eval_step two_io_2_def two_io_3_def)

lemma two_io_run3: "run FCFS_SORT two_io_0 (0, two_io_3)"
  by (rule run.step [OF two_io_run2 two_io_step3]) (simp add: INVALID_MOVE_def)

lemma two_io_step4: "get_next_move two_io_3 0 FCFS_SORT = Inr (2, two_io_4)"
  by (simp add: eval_step two_io_3_def two_io_4_def)

lemma two_io_run4: "run FCFS_SORT two_io_0 (2, two_io_4)"
  by (rule run.step [OF two_io_run3 two_io_step4]) (simp add: INVALID_MOVE_def)

lemma two_io_step5: "get_next_move two_io_4 2 FCFS_SORT = Inr (2, two_io_5)"
  by (simp add: eval_step two_io_4_def two_io_5_def)

lemma two_io_run5: "run FCFS_SORT two_io_0 (2, two_io_5)"
  by (rule run.step [OF two_io_run4 two_io_step5]) (simp add: INVALID_MOVE_def)

lemma two_io_step6: "get_next_move two_io_5 2 FCFS_SORT = Inr (5, two_io_6)"
  by (simp add: eval_step two_io_5_def two_io_6_def)

lemma two_io_run6: "run FCFS_SORT two_io_0 (5, two_io_6)"
  by (rule run.step [OF two_io_run5 two_io_step6]) (simp add: INVALID_MOVE_def)

lemma two_io_step7: "get_next_move two_io_6 5 FCFS_SORT = Inr (102, two_io_7)"
  by (simp add: eval_step two_io_6_def two_io_7_def)

lemma two_io_run7: "run FCFS_SORT two_io_0 (102, two_io_7)"
  by (rule run.step [OF two_io_run6 two_io_step7]) (simp add: INVALID_MOVE_def)

lemma two_io_step8: "get_next_move two_io_7 102 FCFS_SORT = Inr (6, two_io_8)"
  by (simp add: eval_step two_io_7_def two_io_8_def)

lemma two_io_run8: "run FCFS_SORT two_io_0 (6, two_io_8)"
  by (rule run.step [OF two_io_run7 two_io_step8]) (simp add: INVALID_MOVE_def)

lemma plain_load: "load [(fresh_block, (1, 0, 5, 0, 0, 0))] = Inr plain_0"
  by (simp add: eval_load fresh_block_def plain_0_def)

lemma plain_run0: "run FCFS_SORT plain_0 (0, plain_0)"
  using run.start [of FCFS_SORT plain_0] by (simp add: INITIAL_TIME_def)

lemma plain_step1: "get_next_move plain_0 0 FCFS_SORT = Inr (0, plain_1)"
  by (simp add: eval_step plain_0_def plain_1_def)

lemma plain_run1: "run FCFS_SORT plain_0 (0, plain_1)"
  by (rule run.step [OF plain_run0 plain_step1]) (simp add: INVALID_MOVE_def)

lemma plain_step2: "get_next_move plain_1 0 FCFS_SORT = Inr (0, plain_2)"
  by (simp add: eval_step plain_1_def plain_2_def)

lemma plain_run2: "run FCFS_SORT plain_0 (0, plain_2)"
  by (rule run.step [OF plain_run1 plain_step2]) (simp add: INVALID_MOVE_def)

lemma edge_load: "load [(fresh_block, (1, 2147483642, 3, 5, 1, 4))] = Inr edge_0"
  by (simp add: eval_load fresh_block_def edge_0_def)

lemma edge_run0: "run FCFS_SORT edge_0 (0, edge_0)"
  using run.start [of FCFS_SORT edge_0] by (simp add: INITIAL_TIME_def)

lemma edge_step1: "get_next_move edge_0 0 FCFS_SORT = Inr (2147483642, edge_1)"
  by (simp add: eval_step edge_0_def edge_1_def)

lemma edge_run1: "run FCFS_SORT edge_0 (2147483642, edge_1)"
  by (rule run.step [OF edge_run0 edge_step1]) (simp add: INVALID_MOVE_def)

lemma edge_step2: "get_next_move edge_1 2147483642 FCFS_SORT = Inr (2147483642, edge_2)"
  by (simp add: eval_step edge_1_def edge_2_def)

lemma edge_run2: "run FCFS_SORT edge_0 (2147483642, edge_2)"
  by (rule run.step [OF edge_run1 edge_step2]) (simp add: INVALID_MOVE_def)

subsection \<open>A sum of a start time and an interval\<close>

lemma sanitized_sum:
  assumes "0 \<le> sint a" and "0 < sint b"
  shows "sanitize1 (a + b) \<noteq> INT_MAX \<longleftrightarrow> sint a + sint b < 2147483647"
    and "sanitize1 (a + b) \<noteq> INT_MAX \<Longrightarrow>
           sanitize1 (a + b) = a + b \<and> sint (a + b) = sint a + sint b"
proof -
  have r: "sint a \<le> 2147483647" "sint b \<le> 2147483647"
    using sint_range32 [of a] sint_range32 [of b] by simp_all
  show iff: "sanitize1 (a + b) \<noteq> INT_MAX \<longleftrightarrow> sint a + sint b < 2147483647"
  proof (cases "sint a + sint b \<le> 2147483647")
    case True
    then have e: "sint (a + b) = sint a + sint b" using assms by (simp add: sint_add32)
    then have "sanitize1 (a + b) = a + b" using assms by (simp add: sanitize1_def sless_sint)
    moreover have "a + b = INT_MAX \<longleftrightarrow> sint (a + b) = 2147483647"
      by (simp add: sint_inject32 [symmetric] sint_INT_MAX)
    ultimately show ?thesis using e True by auto
  next
    case False
    then have "sint (a + b) < 0" using r by (simp add: sint_add32)
    then have "sanitize1 (a + b) = INT_MAX" by (simp add: sanitize1_def sless_sint)
    with False show ?thesis by simp
  qed
  assume "sanitize1 (a + b) \<noteq> INT_MAX"
  with iff have "sint a + sint b < 2147483647" by simp
  then have e: "sint (a + b) = sint a + sint b" using assms by (simp add: sint_add32)
  then have "sanitize1 (a + b) = a + b" using assms by (simp add: sanitize1_def sless_sint)
  with e show "sanitize1 (a + b) = a + b \<and> sint (a + b) = sint a + sint b" by simp
qed

section \<open>The order of the comparisons\<close>

text \<open>
  C1. Whenever one of the six candidate times is finite, the transition that
  \<^verbatim>\<open>get_next_move\<close> executes is the first one in the order waiting to ready, new to ready,
  running to ready, running to waiting, running to terminated, ready to running whose
  candidate time is least among the six, that is, not above any of them. The value of line
  562 is that least time; the call returns it together with the state \<^verbatim>\<open>execute_move\<close>
  gives for this transition, on its own two queues, and the line it logs is the
  transition's.
\<close>

theorem tie_break_first_in_order:
  assumes "0 \<le>s t" and "event_times qs t = Inr raw"
    and "time_of (sanitize raw) m0 \<noteq> INT_MAX"
  shows "\<exists>m p rest qs'.
           find (\<lambda>m. \<forall>m'. time_of (sanitize raw) m \<le>s time_of (sanitize raw) m')
             tie_break_order = Some m \<and>
           (\<forall>m'. time_of (sanitize raw) m \<le>s time_of (sanitize raw) m') \<and>
           time_of (sanitize raw) m \<noteq> INT_MAX \<and>
           minimum (sanitize raw) = time_of (sanitize raw) m \<and>
           find (\<lambda>m. time_of (sanitize raw) m = minimum (sanitize raw)) tie_break_order = Some m \<and>
           deref qs (source m) = p # rest \<and>
           execute_move qs (source m) (destination m) m (time_of (sanitize raw) m) s = Inr qs' \<and>
           get_next_move qs t s = Inr (time_of (sanitize raw) m, qs') \<and>
           written qs' = written qs @
             [(file_of s, (time_of (sanitize raw) m, pid p, old_state m, new_state m))]"
proof -
  let ?tm = "cand qs t"
  let ?v = "minimum ?tm"
  have c: "sanitize raw = ?tm" using assms(2) by (rule event_times_raw)
  have fin: "?v \<noteq> INT_MAX"
    using assms(3) c minimum_INT_MAX_iff [of ?tm] by auto
  from get_next_move_fires [OF assms(1) fin, of s]
  obtain m p rest qs' where
    f: "find (\<lambda>m. time_of ?tm m = ?v) tie_break_order = Some m"
    and r: "deref qs (source m) = p # rest"
      "execute_move qs (source m) (destination m) m ?v s = Inr qs'"
      "get_next_move qs t s = Inr (?v, qs')"
      "written qs' = written qs @ [(file_of s, (?v, pid p, old_state m, new_state m))]"
    by blast
  from f have e: "time_of ?tm m = ?v" by (auto simp: find_Some_iff)
  have le: "sint ?v \<le> sint (time_of ?tm m')" for m'
    by (cases m') (simp_all add: minimum_def sint_MIN')
  have least: "(\<forall>m'. time_of ?tm x \<le>s time_of ?tm m') \<longleftrightarrow> time_of ?tm x = ?v" for x
  proof
    assume "\<forall>m'. time_of ?tm x \<le>s time_of ?tm m'"
    then have "time_of ?tm x \<le>s time_of ?tm m" by blast
    then have "sint (time_of ?tm x) \<le> sint ?v" using e by (simp add: sle_sint)
    with le [of x] have "sint (time_of ?tm x) = sint ?v" by simp
    then show "time_of ?tm x = ?v" by (simp add: sint_inject32)
  next
    assume "time_of ?tm x = ?v"
    then show "\<forall>m'. time_of ?tm x \<le>s time_of ?tm m'" using le by (simp add: sle_sint)
  qed
  have p: "(\<lambda>m. \<forall>m'. time_of ?tm m \<le>s time_of ?tm m') = (\<lambda>m. time_of ?tm m = ?v)"
    by (simp add: least)
  have "find (\<lambda>m. \<forall>m'. time_of ?tm m \<le>s time_of ?tm m') tie_break_order = Some m"
    unfolding p by (rule f)
  moreover have "\<forall>m'. time_of ?tm m \<le>s time_of ?tm m'"
    using e least [of m] by blast
  ultimately have "find (\<lambda>m. \<forall>m'. time_of ?tm m \<le>s time_of ?tm m') tie_break_order = Some m \<and>
      (\<forall>m'. time_of ?tm m \<le>s time_of ?tm m') \<and>
      time_of ?tm m \<noteq> INT_MAX \<and>
      ?v = time_of ?tm m \<and>
      find (\<lambda>m. time_of ?tm m = ?v) tie_break_order = Some m \<and>
      deref qs (source m) = p # rest \<and>
      execute_move qs (source m) (destination m) m (time_of ?tm m) s = Inr qs' \<and>
      get_next_move qs t s = Inr (time_of ?tm m, qs') \<and>
      written qs' = written qs @ [(file_of s, (time_of ?tm m, pid p, old_state m, new_state m))]"
    using f r fin e by simp
  then show ?thesis unfolding c by blast
qed

theorem tie_break_first_in_order_witness:
  "0 \<le>s (4 :: int32) \<and> event_times tie_state 4 = Inr tie_raw \<and>
   time_of (sanitize tie_raw) RUNNING_TO_READY \<noteq> INT_MAX \<and>
   time_of (sanitize tie_raw) RUNNING_TO_READY = time_of (sanitize tie_raw) WAITING_TO_READY \<and>
   time_of (sanitize tie_raw) NEW_TO_READY = 9 \<and>
   minimum (sanitize tie_raw) = 5 \<and>
   get_next_move tie_state 4 FCFS_SORT = Inr (5, tie_after) \<and>
   (\<exists>m p rest qs'.
      find (\<lambda>m. \<forall>m'. time_of (sanitize tie_raw) m \<le>s time_of (sanitize tie_raw) m')
        tie_break_order = Some m \<and>
      (\<forall>m'. time_of (sanitize tie_raw) m \<le>s time_of (sanitize tie_raw) m') \<and>
      time_of (sanitize tie_raw) m \<noteq> INT_MAX \<and>
      minimum (sanitize tie_raw) = time_of (sanitize tie_raw) m \<and>
      find (\<lambda>m. time_of (sanitize tie_raw) m = minimum (sanitize tie_raw)) tie_break_order
        = Some m \<and>
      deref tie_state (source m) = p # rest \<and>
      execute_move tie_state (source m) (destination m) m (time_of (sanitize tie_raw) m)
        FCFS_SORT = Inr qs' \<and>
      get_next_move tie_state 4 FCFS_SORT = Inr (time_of (sanitize tie_raw) m, qs') \<and>
      written qs' = written tie_state @
        [(file_of FCFS_SORT,
          (time_of (sanitize tie_raw) m, pid p, old_state m, new_state m))])"
proof -
  have h1: "0 \<le>s (4 :: int32)" by (simp add: sle_sint)
  have h3: "time_of (sanitize tie_raw) RUNNING_TO_READY \<noteq> INT_MAX"
    by (simp add: tie_raw_def sanitize_def sanitize1_def INT_MAX_def sless_sint)
  have h4: "time_of (sanitize tie_raw) RUNNING_TO_READY
      = time_of (sanitize tie_raw) WAITING_TO_READY"
    "time_of (sanitize tie_raw) NEW_TO_READY = 9"
    by (simp_all add: tie_raw_def sanitize_def sanitize1_def sless_sint)
  have h5: "minimum (sanitize tie_raw) = 5"
    by (simp add: minimum_def sanitize_def sanitize1_def tie_raw_def MIN'_def INT_MAX_def
        sless_sint)
  have h6: "get_next_move tie_state 4 FCFS_SORT = Inr (5, tie_after)"
    unfolding get_next_move_def
    by (simp add: event_times_eq raw_times_def head_or_def sanitize_def sanitize1_def
        minimum_def select_move_def exec_W2R ebind_Inr MIN'_def INT_MAX_def sless_sint sle_sint
        resort_def file_of_def tie_state_def tie_after_def)
  from tie_break_first_in_order [OF h1 tie_state_times h3, of FCFS_SORT] h1 tie_state_times
    h3 h4 h5 h6
  show ?thesis by blast
qed

section \<open>The time of the next I/O\<close>

text \<open>
  C2, as the code has it. In a state of a run, the sanitized candidate time of running to
  waiting is finite exactly when Running has a head and the sum of its \<^verbatim>\<open>last_start\<close> and
  \<^verbatim>\<open>iofreq\<close>, taken in the integers, is below \<^verbatim>\<open>INT_MAX\<close>; it is then that sum, and
  \<^verbatim>\<open>iofreq\<close> is not \<^verbatim>\<open>INT_MAX\<close>. When \<^verbatim>\<open>iofreq\<close> is \<^verbatim>\<open>INT_MAX\<close> the candidate is \<^verbatim>\<open>INT_MAX\<close>
  and running to waiting is not selected.
\<close>

theorem running_to_waiting_applicable:
  assumes "load lines = Inr qs0" and "run s qs0 (t, qs)" and "event_times qs t = Inr raw"
  shows "(running_to_waiting (sanitize raw) \<noteq> INT_MAX \<longleftrightarrow>
            (\<exists>p rest. running qs = p # rest \<and>
               sint (last_start p) + sint (iofreq p) < sint INT_MAX)) \<and>
         (\<forall>p rest. running qs = p # rest \<and> running_to_waiting (sanitize raw) \<noteq> INT_MAX \<longrightarrow>
            iofreq p \<noteq> INT_MAX \<and>
            running_to_waiting (sanitize raw) = last_start p + iofreq p \<and>
            sint (last_start p + iofreq p) = sint (last_start p) + sint (iofreq p)) \<and>
         (\<forall>p rest. running qs = p # rest \<and> iofreq p = INT_MAX \<longrightarrow>
            running_to_waiting (sanitize raw) = INT_MAX \<and>
            (\<forall>from to. select_move (sanitize raw) (minimum (sanitize raw))
               \<noteq> Some (RUNNING_TO_WAITING, from, to)))"
proof -
  note i = load_initial [OF assms(1)]
  have inv: "burst_inv qs" using i(1,2) assms(2) by (rule burst_inv_run)
  have c: "sanitize raw = cand qs t" using assms(3) by (rule event_times_raw)
  show ?thesis
  proof (cases "running qs")
    case Nil
    then show ?thesis unfolding c by (simp add: cand_simps(4) head_or_def sanitize1_INT_MAX)
  next
    case (Cons p rest)
    have a: "0 \<le> sint (last_start p)" and b: "0 < sint (iofreq p)"
      using inv Cons by (simp_all add: burst_inv_def procs_def burst_ok_def sle_sint sless_sint)
    note s = sanitized_sum [OF a b]
    have v: "running_to_waiting (cand qs t) = sanitize1 (last_start p + iofreq p)"
      using Cons by (rule time_of_head(4))
    have 1: "running_to_waiting (cand qs t) \<noteq> INT_MAX \<longleftrightarrow>
        sint (last_start p) + sint (iofreq p) < sint INT_MAX"
      using s(1) by (simp add: v sint_INT_MAX)
    have 2: "running_to_waiting (cand qs t) \<noteq> INT_MAX \<Longrightarrow> iofreq p \<noteq> INT_MAX"
    proof
      assume "running_to_waiting (cand qs t) \<noteq> INT_MAX" and "iofreq p = INT_MAX"
      with 1 a show False by (simp add: sint_INT_MAX)
    qed
    have 3: "running_to_waiting (cand qs t) \<noteq> INT_MAX \<Longrightarrow>
        running_to_waiting (cand qs t) = last_start p + iofreq p \<and>
        sint (last_start p + iofreq p) = sint (last_start p) + sint (iofreq p)"
      using s(2) by (simp add: v)
    have 4: "select_move (cand qs t) (minimum (cand qs t)) \<noteq> Some (RUNNING_TO_WAITING, f, d)"
      if "iofreq p = INT_MAX" for f d
    proof
      assume "select_move (cand qs t) (minimum (cand qs t)) = Some (RUNNING_TO_WAITING, f, d)"
      then have "minimum (cand qs t) \<noteq> INT_MAX"
        and "minimum (cand qs t) = time_of (cand qs t) RUNNING_TO_WAITING"
        by (auto dest: select_move_Some)
      then have "running_to_waiting (cand qs t) \<noteq> INT_MAX" by simp
      with 2 that show False by simp
    qed
    from 1 2 3 4 Cons show ?thesis unfolding c by auto
  qed
qed

lemma short_io_2_times: "event_times short_io_2 0 = Inr short_io_2_raw"
  by (simp add: event_times_eq raw_times_def short_io_2_def short_io_2_raw_def head_or_def
      mk_def INT_MAX_def)

lemma plain_2_times: "event_times plain_2 0 = Inr plain_2_raw"
  by (simp add: event_times_eq raw_times_def plain_2_def plain_2_raw_def head_or_def
      mk_def INT_MAX_def)

lemma edge_2_times: "event_times edge_2 2147483642 = Inr edge_2_raw"
  by (simp add: event_times_eq raw_times_def edge_2_def edge_2_raw_def head_or_def
      mk_def INT_MAX_def)

theorem running_to_waiting_applicable_witness:
  "load [(fresh_block, (1, 0, 2, 2, 1, 0))] = Inr short_io_0 \<and>
   run FCFS_SORT short_io_0 (0, short_io_2) \<and>
   event_times short_io_2 0 = Inr short_io_2_raw \<and>
   running short_io_2 = [mk 1 0 2 2 1 2 0 0 2147483647] \<and>
   sint (last_start (mk 1 0 2 2 1 2 0 0 2147483647))
     + sint (iofreq (mk 1 0 2 2 1 2 0 0 2147483647)) < sint INT_MAX \<and>
   running_to_waiting (sanitize short_io_2_raw) \<noteq> INT_MAX \<and>
   running_to_waiting (sanitize short_io_2_raw)
     = last_start (mk 1 0 2 2 1 2 0 0 2147483647) + iofreq (mk 1 0 2 2 1 2 0 0 2147483647) \<and>
   load [(fresh_block, (1, 0, 5, 0, 0, 0))] = Inr plain_0 \<and>
   run FCFS_SORT plain_0 (0, plain_2) \<and>
   event_times plain_2 0 = Inr plain_2_raw \<and>
   running plain_2 = [mk 1 0 5 2147483647 2147483647 5 0 0 2147483647] \<and>
   iofreq (mk 1 0 5 2147483647 2147483647 5 0 0 2147483647) = INT_MAX \<and>
   running_to_waiting (sanitize plain_2_raw) = INT_MAX"
proof -
  have h1: "running short_io_2 = [mk 1 0 2 2 1 2 0 0 2147483647]"
    by (simp add: short_io_2_def)
  have h2: "sint (last_start (mk 1 0 2 2 1 2 0 0 2147483647))
     + sint (iofreq (mk 1 0 2 2 1 2 0 0 2147483647)) < sint INT_MAX"
    by (simp add: mk_def INT_MAX_def)
  have h3: "running plain_2 = [mk 1 0 5 2147483647 2147483647 5 0 0 2147483647]"
    by (simp add: plain_2_def)
  have h4: "iofreq (mk 1 0 5 2147483647 2147483647 5 0 0 2147483647) = INT_MAX"
    by (simp add: mk_def INT_MAX_def)
  from running_to_waiting_applicable [OF short_io_load short_io_run2 short_io_2_times]
    running_to_waiting_applicable [OF plain_load plain_run2 plain_2_times]
    short_io_load short_io_run2 short_io_2_times plain_load plain_run2 plain_2_times
    h1 h2 h3 h4
  show ?thesis by blast
qed

text \<open>
  C2 as stated fails: the input line \<^verbatim>\<open>1,2147483642,3,5,1,4\<close> brings into Running, at time
  2147483642, a process whose \<^verbatim>\<open>iofreq\<close> is 5, and the candidate time of running to waiting
  is 2147483642 + 5, which is \<^verbatim>\<open>INT_MAX\<close>: not applicable, with a finite interval and
  without any overflow.
\<close>

theorem finite_interval_not_applicable:
  "load [(fresh_block, (1, 2147483642, 3, 5, 1, 4))] = Inr edge_0 \<and>
   run FCFS_SORT edge_0 (2147483642, edge_2) \<and>
   event_times edge_2 2147483642 = Inr edge_2_raw \<and>
   running edge_2 = [mk 1 2147483642 3 5 1 3 2147483642 0 4] \<and>
   iofreq (mk 1 2147483642 3 5 1 3 2147483642 0 4) \<noteq> INT_MAX \<and>
   running_to_waiting (sanitize edge_2_raw) = INT_MAX"
  using edge_load edge_run2 edge_2_times
  by (simp add: edge_2_def edge_2_raw_def mk_def sanitize_def sanitize1_def INT_MAX_def
      sless_sint)

section \<open>Overflowed candidate times\<close>

lemma overflow_state_times: "event_times overflow_state 5 = Inr overflow_raw"
  by (simp add: event_times_eq raw_times_def overflow_state_def overflow_raw_def head_or_def
      INT_MAX_def)

text \<open>
  C3. Let \<open>raw\<close> be the six candidate times as lines 547 to 552 compute them, some of
  them possibly negative because an addition wrapped around. Called with a time that is
  not negative, \<^verbatim>\<open>get_next_move\<close> returns, never with an error. It returns \<^verbatim>\<open>INVALID_MOVE\<close>
  and leaves the state as it was exactly when every candidate is negative or \<^verbatim>\<open>INT_MAX\<close>.
  Otherwise the time it returns is not negative and not \<^verbatim>\<open>INT_MAX\<close>; it is the time of a
  candidate that is not negative, the least among the candidates that are not negative,
  and the transition it executes and logs is that candidate's, never one whose time is
  negative. At the minimum of line 562 each negative candidate counts as \<^verbatim>\<open>INT_MAX\<close>.
\<close>

theorem negative_candidate_is_infinite:
  assumes "0 \<le>s t" and "event_times qs t = Inr raw"
  shows "(\<exists>r. get_next_move qs t s = Inr r) \<and>
         (get_next_move qs t s = Inr (INVALID_MOVE, qs) \<longleftrightarrow>
            (\<forall>m. time_of raw m <s 0 \<or> time_of raw m = INT_MAX)) \<and>
         (\<forall>t' qs'. get_next_move qs t s = Inr (t', qs') \<and> t' \<noteq> INVALID_MOVE \<longrightarrow>
            0 \<le>s t' \<and> t' \<noteq> INT_MAX \<and>
            (\<exists>m p rest.
               \<not> time_of raw m <s 0 \<and> t' = time_of raw m \<and>
               (\<forall>m'. \<not> time_of raw m' <s 0 \<longrightarrow> t' \<le>s time_of raw m') \<and>
               deref qs (source m) = p # rest \<and>
               execute_move qs (source m) (destination m) m t' s = Inr qs' \<and>
               written qs' = written qs @ [(file_of s, (t', pid p, old_state m, new_state m))]) \<and>
            (\<forall>m p. time_of raw m <s 0 \<longrightarrow>
               last (written qs') \<noteq> (file_of s, (t', pid p, old_state m, new_state m)))) \<and>
         minimum (sanitize raw) =
           minimum \<lparr>all_to_ready =
                      (if all_to_ready raw <s 0 then INT_MAX else all_to_ready raw),
                    ready_to_running =
                      (if ready_to_running raw <s 0 then INT_MAX else ready_to_running raw),
                    running_to_terminated =
                      (if running_to_terminated raw <s 0 then INT_MAX
                       else running_to_terminated raw),
                    running_to_waiting =
                      (if running_to_waiting raw <s 0 then INT_MAX else running_to_waiting raw),
                    waiting_to_ready =
                      (if waiting_to_ready raw <s 0 then INT_MAX else waiting_to_ready raw),
                    running_to_ready =
                      (if running_to_ready raw <s 0 then INT_MAX else running_to_ready raw)\<rparr>"
proof -
  let ?tm = "cand qs t"
  let ?v = "minimum ?tm"
  have c: "sanitize raw = ?tm" using assms(2) by (rule event_times_raw)
  have tm: "time_of ?tm m = sanitize1 (time_of raw m)" for m
    using time_of_sanitize [of raw m] c by simp
  have inf: "?v = INT_MAX \<longleftrightarrow> (\<forall>m. time_of raw m <s 0 \<or> time_of raw m = INT_MAX)"
    unfolding minimum_INT_MAX_iff tm by (auto simp: sanitize1_def)
  have ninv: "?v \<noteq> INVALID_MOVE" using minimum_not_INVALID_MOVE [of raw] c by simp
  have nonneg: "0 \<le>s ?v" using minimum_sanitize_nonneg [of raw] c by (simp add: sle_sint)
  have fires: "\<exists>m p rest.
         \<not> time_of raw m <s 0 \<and> ?v = time_of raw m \<and>
         (\<forall>m'. \<not> time_of raw m' <s 0 \<longrightarrow> ?v \<le>s time_of raw m') \<and>
         deref qs (source m) = p # rest \<and>
         execute_move qs (source m) (destination m) m ?v s = Inr qs' \<and>
         written qs' = written qs @ [(file_of s, (?v, pid p, old_state m, new_state m))] \<and>
         (\<forall>m p. time_of raw m <s 0 \<longrightarrow>
            last (written qs') \<noteq> (file_of s, (?v, pid p, old_state m, new_state m)))"
    if g: "get_next_move qs t s = Inr (?v, qs')" and fin: "?v \<noteq> INT_MAX" for qs'
  proof -
    from get_next_move_fires [OF assms(1) fin, of s] g
    obtain m p rest where
      f: "find (\<lambda>m. time_of ?tm m = ?v) tie_break_order = Some m"
      and r: "deref qs (source m) = p # rest"
        "execute_move qs (source m) (destination m) m ?v s = Inr qs'"
        "written qs' = written qs @ [(file_of s, (?v, pid p, old_state m, new_state m))]"
      by auto
    from f have e: "sanitize1 (time_of raw m) = ?v" by (auto simp: find_Some_iff tm)
    with fin have pos: "\<not> time_of raw m <s 0" and v: "?v = time_of raw m"
      by (auto simp: sanitize1_def split: if_splits)
    have least: "?v \<le>s time_of raw m'" if "\<not> time_of raw m' <s 0" for m'
      using minimum_le [of ?tm m'] that by (simp add: tm sanitize1_def sle_sint)
    have other: "last (written qs') \<noteq> (file_of s, (?v, pid p', old_state m', new_state m'))"
      if "time_of raw m' <s 0" for m' p'
    proof
      assume "last (written qs') = (file_of s, (?v, pid p', old_state m', new_state m'))"
      with r(3) have "old_state m = old_state m'" and "new_state m = new_state m'" by simp_all
      then have "m = m'" by (rule move_of_states)
      with pos that show False by simp
    qed
    from pos v least r other show ?thesis by blast
  qed
  have u: "get_next_move qs t s =
      (case select_move (sanitize raw) (minimum (sanitize raw)) of
         None \<Rightarrow> Inr (INVALID_MOVE, qs)
       | Some (move, from, to) \<Rightarrow>
           ebind (execute_move qs from to move (minimum (sanitize raw)) s)
             (\<lambda>qs'. Inr (minimum (sanitize raw), qs')))"
    using assms unfolding get_next_move_def by (simp add: ebind_Inr Let_def)
  have compl: "get_next_move qs t s = Inr (INVALID_MOVE, qs)" if "?v = INT_MAX"
    unfolding u c using that by (simp add: select_move_def)
  have 1: "\<exists>r. get_next_move qs t s = Inr r"
  proof (cases "?v = INT_MAX")
    case True
    then show ?thesis by (simp add: compl)
  next
    case False
    from get_next_move_fires [OF assms(1) False, of s] show ?thesis by blast
  qed
  have 2: "get_next_move qs t s = Inr (INVALID_MOVE, qs) \<longleftrightarrow>
      (\<forall>m. time_of raw m <s 0 \<or> time_of raw m = INT_MAX)"
  proof (cases "?v = INT_MAX")
    case True
    with inf show ?thesis by (simp add: compl)
  next
    case False
    from get_next_move_fires [OF assms(1) False, of s] ninv
    have "get_next_move qs t s \<noteq> Inr (INVALID_MOVE, qs)" by auto
    with False inf show ?thesis by simp
  qed
  have 3: "\<forall>t' qs'. get_next_move qs t s = Inr (t', qs') \<and> t' \<noteq> INVALID_MOVE \<longrightarrow>
      0 \<le>s t' \<and> t' \<noteq> INT_MAX \<and>
      (\<exists>m p rest.
         \<not> time_of raw m <s 0 \<and> t' = time_of raw m \<and>
         (\<forall>m'. \<not> time_of raw m' <s 0 \<longrightarrow> t' \<le>s time_of raw m') \<and>
         deref qs (source m) = p # rest \<and>
         execute_move qs (source m) (destination m) m t' s = Inr qs' \<and>
         written qs' = written qs @ [(file_of s, (t', pid p, old_state m, new_state m))]) \<and>
      (\<forall>m p. time_of raw m <s 0 \<longrightarrow>
         last (written qs') \<noteq> (file_of s, (t', pid p, old_state m, new_state m)))"
  proof (intro allI impI)
    fix t' qs'
    assume a: "get_next_move qs t s = Inr (t', qs') \<and> t' \<noteq> INVALID_MOVE"
    have fin: "?v \<noteq> INT_MAX"
    proof
      assume "?v = INT_MAX"
      then have "get_next_move qs t s = Inr (INVALID_MOVE, qs)" by (rule compl)
      with a show False by auto
    qed
    from get_next_move_fires [OF assms(1) fin, of s] a have t': "t' = ?v" by auto
    with a have g: "get_next_move qs t s = Inr (?v, qs')" by simp
    from fires [OF g fin] nonneg fin
    show "0 \<le>s t' \<and> t' \<noteq> INT_MAX \<and>
      (\<exists>m p rest.
         \<not> time_of raw m <s 0 \<and> t' = time_of raw m \<and>
         (\<forall>m'. \<not> time_of raw m' <s 0 \<longrightarrow> t' \<le>s time_of raw m') \<and>
         deref qs (source m) = p # rest \<and>
         execute_move qs (source m) (destination m) m t' s = Inr qs' \<and>
         written qs' = written qs @ [(file_of s, (t', pid p, old_state m, new_state m))]) \<and>
      (\<forall>m p. time_of raw m <s 0 \<longrightarrow>
         last (written qs') \<noteq> (file_of s, (t', pid p, old_state m, new_state m)))"
      unfolding t' by blast
  qed
  have 4: "minimum (sanitize raw) =
           minimum \<lparr>all_to_ready =
                      (if all_to_ready raw <s 0 then INT_MAX else all_to_ready raw),
                    ready_to_running =
                      (if ready_to_running raw <s 0 then INT_MAX else ready_to_running raw),
                    running_to_terminated =
                      (if running_to_terminated raw <s 0 then INT_MAX
                       else running_to_terminated raw),
                    running_to_waiting =
                      (if running_to_waiting raw <s 0 then INT_MAX else running_to_waiting raw),
                    waiting_to_ready =
                      (if waiting_to_ready raw <s 0 then INT_MAX else waiting_to_ready raw),
                    running_to_ready =
                      (if running_to_ready raw <s 0 then INT_MAX else running_to_ready raw)\<rparr>"
    by (simp add: sanitize_def sanitize1_def)
  from 1 2 3 4 show ?thesis by blast
qed

theorem negative_candidate_is_infinite_witness:
  "0 \<le>s (5 :: int32) \<and> event_times overflow_state 5 = Inr overflow_raw \<and>
   time_of overflow_raw RUNNING_TO_WAITING <s 0 \<and>
   time_of overflow_raw RUNNING_TO_READY <s 0 \<and>
   get_next_move overflow_state 5 FCFS_SORT = Inr (8, overflow_after) \<and>
   (8 :: int32) \<noteq> INVALID_MOVE \<and> 0 \<le>s (8 :: int32) \<and> (8 :: int32) \<noteq> INT_MAX \<and>
   (\<exists>m p rest.
      \<not> time_of overflow_raw m <s 0 \<and> 8 = time_of overflow_raw m \<and>
      deref overflow_state (source m) = p # rest \<and>
      execute_move overflow_state (source m) (destination m) m 8 FCFS_SORT
        = Inr overflow_after \<and>
      written overflow_after = written overflow_state @
        [(file_of FCFS_SORT, (8, pid p, old_state m, new_state m))]) \<and>
   last (written overflow_after) \<noteq>
     (file_of FCFS_SORT, (8, 1, old_state RUNNING_TO_WAITING, new_state RUNNING_TO_WAITING)) \<and>
   get_next_move overflow_state 5 FCFS_SORT \<noteq> Inr (INVALID_MOVE, overflow_state)"
proof -
  have h1: "0 \<le>s (5 :: int32)" by (simp add: sle_sint)
  have neg: "time_of overflow_raw RUNNING_TO_WAITING <s 0"
    "time_of overflow_raw RUNNING_TO_READY <s 0"
    by (simp_all add: overflow_raw_def sless_sint)
  have h2: "(8 :: int32) \<noteq> INVALID_MOVE" by (simp add: INVALID_MOVE_def)
  have step: "get_next_move overflow_state 5 FCFS_SORT = Inr (8, overflow_after)"
    unfolding get_next_move_def
    by (simp add: event_times_eq raw_times_def head_or_def sanitize_def sanitize1_def
        minimum_def select_move_def exec_R2T ebind_Inr MIN'_def INT_MAX_def sless_sint sle_sint
        resort_def file_of_def overflow_state_def overflow_after_def)
  note T = negative_candidate_is_infinite [OF h1 overflow_state_times, of FCFS_SORT]
  from T step h2
  have a: "0 \<le>s (8 :: int32) \<and> (8 :: int32) \<noteq> INT_MAX \<and>
    (\<exists>m p rest.
      \<not> time_of overflow_raw m <s 0 \<and> 8 = time_of overflow_raw m \<and>
      deref overflow_state (source m) = p # rest \<and>
      execute_move overflow_state (source m) (destination m) m 8 FCFS_SORT
        = Inr overflow_after \<and>
      written overflow_after = written overflow_state @
        [(file_of FCFS_SORT, (8, pid p, old_state m, new_state m))])"
    by blast
  have b: "last (written overflow_after) \<noteq>
     (file_of FCFS_SORT, (8, 1, old_state RUNNING_TO_WAITING, new_state RUNNING_TO_WAITING))"
    by (simp add: overflow_after_def)
  have c: "get_next_move overflow_state 5 FCFS_SORT \<noteq> Inr (INVALID_MOVE, overflow_state)"
    using step h2 by simp
  from h1 overflow_state_times neg step h2 a b c show ?thesis by blast
qed

section \<open>One call of the engine\<close>

lemma forall_queue_ptr:
  "(\<forall>q. P q) \<longleftrightarrow> P P_all \<and> P P_ready \<and> P P_running \<and> P P_waiting \<and> P P_terminated"
proof
  assume r: "P P_all \<and> P P_ready \<and> P P_running \<and> P P_waiting \<and> P P_terminated"
  show "\<forall>q. P q"
  proof
    fix q show "P q" using r by (cases q) simp_all
  qed
qed simp

text \<open>
  C4. For a time that is not negative \<^verbatim>\<open>get_next_move\<close> always returns. If all six
  candidate times are \<^verbatim>\<open>INT_MAX\<close> it returns \<^verbatim>\<open>INVALID_MOVE\<close> and leaves the queues and
  the files as they were. Otherwise it returns the time of one transition, which is the
  least candidate time and is not \<^verbatim>\<open>INVALID_MOVE\<close>, and does what \<^verbatim>\<open>execute_move\<close> does for
  that transition: the head of the source queue is gone from it, the destination queue has
  one element more, the other three queues are unchanged and one line is logged.
\<close>

theorem advance_one_transition_or_completion:
  assumes "0 \<le>s t" and "event_times qs t = Inr raw"
  shows "((\<forall>m. time_of (sanitize raw) m = INT_MAX) \<longrightarrow>
            get_next_move qs t s = Inr (INVALID_MOVE, qs)) \<and>
         (\<not> (\<forall>m. time_of (sanitize raw) m = INT_MAX) \<longrightarrow>
            (\<exists>m p rest qs'.
               get_next_move qs t s = Inr (time_of (sanitize raw) m, qs') \<and>
               time_of (sanitize raw) m \<noteq> INVALID_MOVE \<and>
               time_of (sanitize raw) m = minimum (sanitize raw) \<and>
               execute_move qs (source m) (destination m) m (time_of (sanitize raw) m) s
                 = Inr qs' \<and>
               deref qs (source m) = p # rest \<and>
               deref qs' (source m) = rest \<and>
               length (deref qs' (destination m)) = length (deref qs (destination m)) + 1 \<and>
               (\<forall>q. q \<noteq> source m \<and> q \<noteq> destination m \<longrightarrow> deref qs' q = deref qs q) \<and>
               written qs' = written qs @
                 [(file_of s, (time_of (sanitize raw) m, pid p, old_state m, new_state m))]))"
proof -
  let ?tm = "cand qs t"
  let ?v = "minimum ?tm"
  have c: "sanitize raw = ?tm" using assms(2) by (rule event_times_raw)
  have ninv: "?v \<noteq> INVALID_MOVE" using minimum_not_INVALID_MOVE [of raw] c by simp
  let ?fires = "\<lambda>m p rest qs'.
     get_next_move qs t s = Inr (time_of ?tm m, qs') \<and>
     time_of ?tm m \<noteq> INVALID_MOVE \<and> time_of ?tm m = ?v \<and>
     execute_move qs (source m) (destination m) m (time_of ?tm m) s = Inr qs' \<and>
     deref qs (source m) = p # rest \<and>
     deref qs' (source m) = rest \<and>
     length (deref qs' (destination m)) = length (deref qs (destination m)) + 1 \<and>
     (\<forall>q. q \<noteq> source m \<and> q \<noteq> destination m \<longrightarrow> deref qs' q = deref qs q) \<and>
     written qs' = written qs @ [(file_of s, (time_of ?tm m, pid p, old_state m, new_state m))]"
  have "((\<forall>m. time_of ?tm m = INT_MAX) \<longrightarrow> get_next_move qs t s = Inr (INVALID_MOVE, qs)) \<and>
        (\<not> (\<forall>m. time_of ?tm m = INT_MAX) \<longrightarrow> (\<exists>m p rest qs'. ?fires m p rest qs'))"
    using assms(1)
  proof (cases rule: get_next_move_cases [where t = t and qs = qs and s = s])
    case Done
    then show ?thesis by (simp add: minimum_INT_MAX_iff)
  next
    case (W2R p rest)
    have e: "time_of ?tm WAITING_TO_READY = ?v"
      using W2R(1,3) by (simp add: time_of_head(1))
    have "?fires WAITING_TO_READY p rest
            (qs\<lparr>waiting := rest, ready := resort s (ready qs @ [p]),
                written := written qs @ [(file_of s, (?v, pid p, WAITING_STATE, READY_STATE))]\<rparr>)"
      unfolding e using W2R ninv
      by (simp add: execute_move_W2R length_resort forall_queue_ptr)
    moreover have "\<not> (\<forall>m. time_of ?tm m = INT_MAX)"
      using W2R(2) by (simp only: minimum_INT_MAX_iff [symmetric]) simp
    ultimately show ?thesis by blast
  next
    case (N2R p rest)
    have e: "time_of ?tm NEW_TO_READY = ?v"
      using N2R(1,3) by (simp add: time_of_head(2))
    have "?fires NEW_TO_READY p rest
            (qs\<lparr>all := rest, ready := resort s (ready qs @ [p]),
                written := written qs @ [(file_of s, (?v, pid p, NEW_STATE, READY_STATE))]\<rparr>)"
      unfolding e using N2R ninv
      by (simp add: execute_move_N2R length_resort forall_queue_ptr)
    moreover have "\<not> (\<forall>m. time_of ?tm m = INT_MAX)"
      using N2R(2) by (simp only: minimum_INT_MAX_iff [symmetric]) simp
    ultimately show ?thesis by blast
  next
    case (R2R p rest)
    have e: "time_of ?tm RUNNING_TO_READY = ?v"
      using R2R(1,3) by (simp add: time_of_head(3))
    have "?fires RUNNING_TO_READY p rest
            (qs\<lparr>running := rest,
                ready := resort s (ready qs @ [p\<lparr>remaining := remaining p - rr p\<rparr>]),
                written := written qs @ [(file_of s, (?v, pid p, RUNNING_STATE, READY_STATE))]\<rparr>)"
      unfolding e using R2R ninv
      by (simp add: execute_move_R2R length_resort forall_queue_ptr)
    moreover have "\<not> (\<forall>m. time_of ?tm m = INT_MAX)"
      using R2R(2) by (simp only: minimum_INT_MAX_iff [symmetric]) simp
    ultimately show ?thesis by blast
  next
    case (R2W p rest)
    have e: "time_of ?tm RUNNING_TO_WAITING = ?v"
      using R2W(1,3) by (simp add: time_of_head(4))
    have "?fires RUNNING_TO_WAITING p rest
            (qs\<lparr>running := rest,
                waiting := waiting qs @
                  [p\<lparr>remaining := remaining p - iofreq p, last_io_start := ?v\<rparr>],
                written := written qs @ [(file_of s, (?v, pid p, RUNNING_STATE, WAITING_STATE))]\<rparr>)"
      unfolding e using R2W ninv
      by (simp add: execute_move_R2W forall_queue_ptr)
    moreover have "\<not> (\<forall>m. time_of ?tm m = INT_MAX)"
      using R2W(2) by (simp only: minimum_INT_MAX_iff [symmetric]) simp
    ultimately show ?thesis by blast
  next
    case (R2T p rest)
    have e: "time_of ?tm RUNNING_TO_TERMINATED = ?v"
      using R2T(1,3) by (simp add: time_of_head(5))
    have "?fires RUNNING_TO_TERMINATED p rest
            (qs\<lparr>running := rest,
                terminated := terminated qs @ [p\<lparr>remaining := 0\<rparr>],
                written := written qs @
                  [(file_of s, (?v, pid p, RUNNING_STATE, TERMINATED_STATE))]\<rparr>)"
      unfolding e using R2T ninv
      by (simp add: execute_move_R2T forall_queue_ptr)
    moreover have "\<not> (\<forall>m. time_of ?tm m = INT_MAX)"
      using R2T(2) by (simp only: minimum_INT_MAX_iff [symmetric]) simp
    ultimately show ?thesis by blast
  next
    case (Rdy2Run p rest)
    have e: "time_of ?tm READY_TO_RUNNING = ?v"
      using Rdy2Run(1,2,4) by (simp add: time_of_head(6))
    have "?fires READY_TO_RUNNING p rest
            (qs\<lparr>ready := rest,
                running := [p\<lparr>last_start := ?v\<rparr>],
                written := written qs @ [(file_of s, (?v, pid p, READY_STATE, RUNNING_STATE))]\<rparr>)"
      unfolding e using Rdy2Run ninv
      by (simp add: execute_move_Rdy2Run forall_queue_ptr)
    moreover have "\<not> (\<forall>m. time_of ?tm m = INT_MAX)"
      using Rdy2Run(3) by (simp only: minimum_INT_MAX_iff [symmetric]) simp
    ultimately show ?thesis by blast
  qed
  then show ?thesis by (simp only: c)
qed

lemma idle_state_times: "event_times idle_state 0 = Inr idle_raw"
  by (simp add: event_times_eq raw_times_def idle_state_def idle_raw_def head_or_def)

theorem advance_one_transition_or_completion_witness:
  "0 \<le>s (4 :: int32) \<and> event_times tie_state 4 = Inr tie_raw \<and>
   \<not> (\<forall>m. time_of (sanitize tie_raw) m = INT_MAX) \<and>
   (\<exists>m p rest qs'.
      get_next_move tie_state 4 SJF_SORT = Inr (time_of (sanitize tie_raw) m, qs') \<and>
      time_of (sanitize tie_raw) m \<noteq> INVALID_MOVE \<and>
      time_of (sanitize tie_raw) m = minimum (sanitize tie_raw) \<and>
      execute_move tie_state (source m) (destination m) m (time_of (sanitize tie_raw) m) SJF_SORT
        = Inr qs' \<and>
      deref tie_state (source m) = p # rest \<and>
      deref qs' (source m) = rest \<and>
      length (deref qs' (destination m)) = length (deref tie_state (destination m)) + 1 \<and>
      (\<forall>q. q \<noteq> source m \<and> q \<noteq> destination m \<longrightarrow> deref qs' q = deref tie_state q) \<and>
      written qs' = written tie_state @
        [(file_of SJF_SORT, (time_of (sanitize tie_raw) m, pid p, old_state m, new_state m))]) \<and>
   0 \<le>s (0 :: int32) \<and> event_times idle_state 0 = Inr idle_raw \<and>
   (\<forall>m. time_of (sanitize idle_raw) m = INT_MAX) \<and>
   get_next_move idle_state 0 SJF_SORT = Inr (INVALID_MOVE, idle_state)"
proof -
  have h1: "0 \<le>s (4 :: int32)" by (simp add: sle_sint)
  have h2: "\<not> (\<forall>m. time_of (sanitize tie_raw) m = INT_MAX)"
    by (simp only: minimum_INT_MAX_iff [symmetric]) (simp add: tie_raw_minimum INT_MAX_def)
  have h3: "0 \<le>s (0 :: int32)" by (simp add: sle_sint)
  have h4: "\<forall>m. time_of (sanitize idle_raw) m = INT_MAX"
    by (simp add: forall_move sanitize_def idle_raw_def sanitize1_INT_MAX)
  from advance_one_transition_or_completion [OF h1 tie_state_times, of SJF_SORT]
    advance_one_transition_or_completion [OF h3 idle_state_times, of SJF_SORT]
    h1 h2 h3 h4 tie_state_times idle_state_times
  show ?thesis by blast
qed

section \<open>From Running to Waiting\<close>

text \<open>
  C5. \<^verbatim>\<open>execute_move\<close> for running to waiting takes the head of Running, subtracts its
  \<^verbatim>\<open>iofreq\<close> from its \<^verbatim>\<open>remaining\<close>, sets its \<^verbatim>\<open>last_io_start\<close> to the time of the
  event and puts it at the tail of Waiting; when neither field is negative the
  subtraction does not wrap. The input line \<^verbatim>\<open>i,0,10,2,d,0\<close> alone, with an I/O duration
  \<open>d\<close> such that \<open>2 + d\<close> is below \<^verbatim>\<open>INT_MAX\<close>, gives the run: to Ready at 0, to Running
  at 0, to Waiting at 2 with 8 units left, back to Ready at \<open>2 + d\<close>.
\<close>

theorem running_to_waiting_bookkeeping:
  assumes "0 <s d" and "d <s 2147483645"
  shows "execute_move (qs\<lparr>running := p # rest\<rparr>) P_running P_waiting RUNNING_TO_WAITING t s =
           Inr (qs\<lparr>running := rest,
                   waiting := waiting qs @
                     [p\<lparr>remaining := remaining p - iofreq p, last_io_start := t\<rparr>],
                   written := written qs @
                     [(file_of s, (t, pid p, RUNNING_STATE, WAITING_STATE))]\<rparr>) \<and>
         (0 \<le>s iofreq p \<and> 0 \<le>s remaining p \<longrightarrow>
            sint (remaining p - iofreq p) = sint (remaining p) - sint (iofreq p)) \<and>
         (\<exists>st0 st1 st2 st3 st4 q.
            load [(Some blk, (i, 0, 10, 2, d, 0))] = Inr st0 \<and>
            get_next_move st0 INITIAL_TIME s = Inr (0, st1) \<and>
            get_next_move st1 0 s = Inr (0, st2) \<and>
            running st2 = [q] \<and> remaining q = 10 \<and> iofreq q = 2 \<and> iodur q = d \<and>
            last_start q = 0 \<and>
            get_next_move st2 0 s = Inr (2, st3) \<and>
            running st3 = [] \<and> waiting st3 = [q\<lparr>remaining := 8, last_io_start := 2\<rparr>] \<and>
            get_next_move st3 2 s = Inr (2 + d, st4) \<and>
            waiting st4 = [] \<and> ready st4 = [q\<lparr>remaining := 8, last_io_start := 2\<rparr>])"
proof (intro conjI)
  show "execute_move (qs\<lparr>running := p # rest\<rparr>) P_running P_waiting RUNNING_TO_WAITING t s =
           Inr (qs\<lparr>running := rest,
                   waiting := waiting qs @
                     [p\<lparr>remaining := remaining p - iofreq p, last_io_start := t\<rparr>],
                   written := written qs @
                     [(file_of s, (t, pid p, RUNNING_STATE, WAITING_STATE))]\<rparr>)"
    by (simp add: exec_R2W)
  show "0 \<le>s iofreq p \<and> 0 \<le>s remaining p \<longrightarrow>
          sint (remaining p - iofreq p) = sint (remaining p) - sint (iofreq p)"
    by (simp add: sle_sint sint_sub32)
next
  have d: "1 \<le> sint d" "sint d \<le> 2147483644"
    using assms by (simp_all add: sless_sint)
  have s2d: "sint (2 + d) = 2 + sint d"
    using d by (simp add: sint_add32)
  have ne: "2 + d \<noteq> 2147483647"
  proof
    assume "2 + d = 2147483647"
    then have "sint (2 + d) = sint (2147483647 :: int32)" by simp
    with s2d d show False by simp
  qed
  define p0 where "p0 = blk\<lparr>pid := i, start := 0, total' := 10, iofreq := 2, iodur := d,
    remaining := 10, rr := 2147483647\<rparr>"
  define q where "q = p0\<lparr>last_start := 0\<rparr>"
  define w where "w = q\<lparr>remaining := 8, last_io_start := 2\<rparr>"
  define l1 where "l1 = [(file_of s, (0 :: int32, i, NEW_STATE, READY_STATE))]"
  define l2 where "l2 = l1 @ [(file_of s, (0 :: int32, i, READY_STATE, RUNNING_STATE))]"
  define l3 where "l3 = l2 @ [(file_of s, (2 :: int32, i, RUNNING_STATE, WAITING_STATE))]"
  define l4 where "l4 = l3 @ [(file_of s, (2 + d, i, WAITING_STATE, READY_STATE))]"
  define st0 where "st0 = \<lparr>all = [p0], ready = [], running = [], waiting = [],
    terminated = [], written = []\<rparr>"
  define st1 where "st1 = \<lparr>all = [], ready = [p0], running = [], waiting = [],
    terminated = [], written = l1\<rparr>"
  define st2 where "st2 = \<lparr>all = [], ready = [], running = [q], waiting = [],
    terminated = [], written = l2\<rparr>"
  define st3 where "st3 = \<lparr>all = [], ready = [], running = [], waiting = [w],
    terminated = [], written = l3\<rparr>"
  define st4 where "st4 = \<lparr>all = [], ready = [w], running = [], waiting = [],
    terminated = [], written = l4\<rparr>"
  have ld: "load [(Some blk, (i, 0, 10, 2, d, 0))] = Inr st0"
    using d by (simp add: eval_load st0_def p0_def)
  have g1: "get_next_move st0 INITIAL_TIME s = Inr (0, st1)"
    by (simp add: eval_step resort_single [unfolded resort_def] INITIAL_TIME_def
        st0_def st1_def p0_def l1_def)
  have g2: "get_next_move st1 0 s = Inr (0, st2)"
    by (simp add: eval_step st1_def st2_def p0_def q_def l2_def)
  have g3: "get_next_move st2 0 s = Inr (2, st3)"
    by (simp add: eval_step st2_def st3_def p0_def q_def w_def l3_def)
  have g4: "get_next_move st3 2 s = Inr (2 + d, st4)"
    using d ne
    by (simp add: eval_step resort_single [unfolded resort_def] s2d
        st3_def st4_def p0_def q_def w_def l4_def)
  have f: "running st2 = [q]" "remaining q = 10" "iofreq q = 2" "iodur q = d" "last_start q = 0"
    "running st3 = []" "waiting st3 = [q\<lparr>remaining := 8, last_io_start := 2\<rparr>]"
    "waiting st4 = []" "ready st4 = [q\<lparr>remaining := 8, last_io_start := 2\<rparr>]"
    by (simp_all add: st2_def st3_def st4_def q_def p0_def w_def)
  from ld g1 g2 g3 g4 f
  show "\<exists>st0 st1 st2 st3 st4 q.
            load [(Some blk, (i, 0, 10, 2, d, 0))] = Inr st0 \<and>
            get_next_move st0 INITIAL_TIME s = Inr (0, st1) \<and>
            get_next_move st1 0 s = Inr (0, st2) \<and>
            running st2 = [q] \<and> remaining q = 10 \<and> iofreq q = 2 \<and> iodur q = d \<and>
            last_start q = 0 \<and>
            get_next_move st2 0 s = Inr (2, st3) \<and>
            running st3 = [] \<and> waiting st3 = [q\<lparr>remaining := 8, last_io_start := 2\<rparr>] \<and>
            get_next_move st3 2 s = Inr (2 + d, st4) \<and>
            waiting st4 = [] \<and> ready st4 = [q\<lparr>remaining := 8, last_io_start := 2\<rparr>]"
    by blast
qed

theorem running_to_waiting_bookkeeping_witness:
  "(0 :: int32) <s 7 \<and> (7 :: int32) <s 2147483645 \<and>
   execute_move (idle_state\<lparr>running := [mk 1 0 10 2 7 10 0 0 2147483647]\<rparr>)
       P_running P_waiting RUNNING_TO_WAITING 2 FCFS_SORT =
     Inr (idle_state\<lparr>running := [],
            waiting := waiting idle_state @
              [(mk 1 0 10 2 7 10 0 0 2147483647)
                 \<lparr>remaining := remaining (mk 1 0 10 2 7 10 0 0 2147483647)
                                 - iofreq (mk 1 0 10 2 7 10 0 0 2147483647),
                  last_io_start := 2\<rparr>],
            written := written idle_state @
              [(file_of FCFS_SORT,
                (2, pid (mk 1 0 10 2 7 10 0 0 2147483647), RUNNING_STATE, WAITING_STATE))]\<rparr>) \<and>
   0 \<le>s iofreq (mk 1 0 10 2 7 10 0 0 2147483647) \<and>
   0 \<le>s remaining (mk 1 0 10 2 7 10 0 0 2147483647) \<and>
   sint (remaining (mk 1 0 10 2 7 10 0 0 2147483647) - iofreq (mk 1 0 10 2 7 10 0 0 2147483647))
     = sint (remaining (mk 1 0 10 2 7 10 0 0 2147483647))
       - sint (iofreq (mk 1 0 10 2 7 10 0 0 2147483647)) \<and>
   (\<exists>st0 st1 st2 st3 st4 q.
      load [(fresh_block, (1, 0, 10, 2, 7, 0))] = Inr st0 \<and>
      get_next_move st0 INITIAL_TIME FCFS_SORT = Inr (0, st1) \<and>
      get_next_move st1 0 FCFS_SORT = Inr (0, st2) \<and>
      running st2 = [q] \<and> remaining q = 10 \<and> iofreq q = 2 \<and> iodur q = 7 \<and>
      last_start q = 0 \<and>
      get_next_move st2 0 FCFS_SORT = Inr (2, st3) \<and>
      running st3 = [] \<and> waiting st3 = [q\<lparr>remaining := 8, last_io_start := 2\<rparr>] \<and>
      get_next_move st3 2 FCFS_SORT = Inr (2 + 7, st4) \<and>
      waiting st4 = [] \<and> ready st4 = [q\<lparr>remaining := 8, last_io_start := 2\<rparr>])"
proof -
  have h1: "(0 :: int32) <s 7" by (simp add: sless_sint)
  have h2: "(7 :: int32) <s 2147483645" by (simp add: sless_sint)
  have h3: "0 \<le>s iofreq (mk 1 0 10 2 7 10 0 0 2147483647)"
    "0 \<le>s remaining (mk 1 0 10 2 7 10 0 0 2147483647)"
    by (simp_all add: mk_def sle_sint)
  from running_to_waiting_bookkeeping [OF h1 h2,
      where qs = idle_state and p = "mk 1 0 10 2 7 10 0 0 2147483647" and rest = "[]"
        and t = 2 and s = FCFS_SORT and blk = "mk 0 0 0 0 0 0 0 0 0" and i = 1]
    h1 h2 h3
  show ?thesis unfolding fresh_block_def by blast
qed

section \<open>Sorting the Ready queue\<close>

lemma set_g_list_sort_merge: "set (g_list_sort_merge l1 l2 c) = set l1 \<union> set l2"
  using mset_g_list_sort_merge [of l1 l2 c] by (metis set_mset_mset set_mset_union)

lemma sorted_g_list_sort_merge:
  fixes key :: "Process \<Rightarrow> int32"
  assumes "\<forall>x \<in> set l1 \<union> set l2. 0 \<le> sint (key x)"
    and "sorted_wrt (\<lambda>a b. key a \<le>s key b) l1" and "sorted_wrt (\<lambda>a b. key a \<le>s key b) l2"
  shows "sorted_wrt (\<lambda>a b. key a \<le>s key b) (g_list_sort_merge l1 l2 (\<lambda>a b. key a - key b))"
  using assms
proof (induction l1 l2 "\<lambda>a b :: Process. key a - key b :: int32" rule: g_list_sort_merge.induct)
  case (1 l2)
  then show ?case by simp
next
  case (2 a l1)
  then show ?case by simp
next
  case (3 a l1 b l2)
  have ab: "key a - key b \<le>s 0 \<longleftrightarrow> sint (key a) \<le> sint (key b)"
    using 3(3) by (simp add: sle_sint sint_sub32)
  show ?case
  proof (cases "key a - key b \<le>s 0")
    case True
    have "sorted_wrt (\<lambda>a b. key a \<le>s key b) (g_list_sort_merge l1 (b # l2) (\<lambda>a b. key a - key b))"
      using 3(1) [OF True] 3(3,4,5) by simp
    moreover have "\<forall>x \<in> set l1 \<union> set (b # l2). key a \<le>s key x"
      using True ab 3(4,5) by (auto simp: sle_sint)
    ultimately show ?thesis using True by (simp add: set_g_list_sort_merge)
  next
    case False
    have "sorted_wrt (\<lambda>a b. key a \<le>s key b) (g_list_sort_merge (a # l1) l2 (\<lambda>a b. key a - key b))"
      using 3(2) [OF False] 3(3,4,5) by simp
    moreover have "\<forall>x \<in> set (a # l1) \<union> set l2. key b \<le>s key x"
      using False ab 3(4,5) by (auto simp: sle_sint)
    ultimately show ?thesis using False by (simp add: set_g_list_sort_merge)
  qed
qed

lemma sorted_g_list_sort_real:
  fixes key :: "Process \<Rightarrow> int32"
  assumes "\<forall>x \<in> set l. 0 \<le> sint (key x)"
  shows "sorted_wrt (\<lambda>a b. key a \<le>s key b) (g_list_sort_real l (\<lambda>a b. key a - key b))"
  using assms
proof (induction l "\<lambda>a b :: Process. key a - key b :: int32" rule: g_list_sort_real.induct)
  case (1 l)
  show ?case
  proof (cases "length l \<le> 1")
    case True
    then have "l = [] \<or> (\<exists>x. l = [x])"
      by (cases l) auto
    then show ?thesis by (auto simp: g_list_sort_real.simps [of l])
  next
    case False
    let ?c = "\<lambda>a b :: Process. key a - key b :: int32"
    let ?a = "take (length l div 2) l" and ?b = "drop (length l div 2) l"
    have sa: "\<forall>x \<in> set ?a. 0 \<le> sint (key x)" and sb: "\<forall>x \<in> set ?b. 0 \<le> sint (key x)"
      using 1(3) by (auto dest: in_set_takeD in_set_dropD)
    have "sorted_wrt (\<lambda>a b. key a \<le>s key b) (g_list_sort_real ?a ?c)"
      using 1(1) [OF False] sa by simp
    moreover have "sorted_wrt (\<lambda>a b. key a \<le>s key b) (g_list_sort_real ?b ?c)"
      using 1(2) [OF False] sb by simp
    moreover have "\<forall>x \<in> set (g_list_sort_real ?a ?c) \<union> set (g_list_sort_real ?b ?c).
        0 \<le> sint (key x)"
      using sa sb mset_g_list_sort_real [of ?a ?c] mset_g_list_sort_real [of ?b ?c]
      by (metis Un_iff set_mset_mset)
    ultimately have "sorted_wrt (\<lambda>a b. key a \<le>s key b)
        (g_list_sort_merge (g_list_sort_real ?a ?c) (g_list_sort_real ?b ?c) ?c)"
      by (intro sorted_g_list_sort_merge) auto
    with False show ?thesis by (simp add: g_list_sort_real.simps [of l])
  qed
qed

lemma ordered_by_sjf:
  "\<forall>x \<in> set q. 0 \<le>s total' x \<Longrightarrow> ordered_by total' (g_queue_sort q sort_sjf)"
  using sorted_g_list_sort_real [of q total']
  by (simp add: ordered_by_def g_queue_sort_def sort_sjf_def [abs_def] sle_sint)

lemma ordered_by_srtf:
  "\<forall>x \<in> set q. 0 \<le>s remaining x \<Longrightarrow> ordered_by remaining (g_queue_sort q sort_srtf)"
  using sorted_g_list_sort_real [of q remaining]
  by (simp add: ordered_by_def g_queue_sort_def sort_srtf_def [abs_def] sle_sint)

text \<open>
  C6. The three transitions into Ready (from New, from Waiting, from Running) leave Ready
  as the old queue with the process appended under \<^verbatim>\<open>FCFS_SORT\<close>, and as that list sorted
  by \<^verbatim>\<open>sort_sjf\<close> under \<^verbatim>\<open>SJF_SORT\<close> and by \<^verbatim>\<open>sort_srtf\<close> under \<^verbatim>\<open>SRTF_SORT\<close>; the sorted
  queue has the same elements and is in the order of the field when no value of the field
  is negative. The three other transitions append to their destination and do not reorder
  any queue, whatever the policy.
\<close>

theorem ready_sorted_only_under_SJF_SRTF:
  "execute_move (qs\<lparr>all := p # rest\<rparr>) P_all P_ready NEW_TO_READY t s =
     Inr (qs\<lparr>all := rest, ready := resort s (ready qs @ [p]),
             written := written qs @ [(file_of s, (t, pid p, NEW_STATE, READY_STATE))]\<rparr>) \<and>
   execute_move (qs\<lparr>waiting := p # rest\<rparr>) P_waiting P_ready WAITING_TO_READY t s =
     Inr (qs\<lparr>waiting := rest, ready := resort s (ready qs @ [p]),
             written := written qs @ [(file_of s, (t, pid p, WAITING_STATE, READY_STATE))]\<rparr>) \<and>
   execute_move (qs\<lparr>running := p # rest\<rparr>) P_running P_ready RUNNING_TO_READY t s =
     Inr (qs\<lparr>running := rest,
             ready := resort s (ready qs @ [p\<lparr>remaining := remaining p - rr p\<rparr>]),
             written := written qs @ [(file_of s, (t, pid p, RUNNING_STATE, READY_STATE))]\<rparr>) \<and>
   execute_move (qs\<lparr>ready := p # rest, running := []\<rparr>) P_ready P_running READY_TO_RUNNING t s =
     Inr (qs\<lparr>ready := rest, running := [p\<lparr>last_start := t\<rparr>],
             written := written qs @ [(file_of s, (t, pid p, READY_STATE, RUNNING_STATE))]\<rparr>) \<and>
   execute_move (qs\<lparr>running := p # rest\<rparr>) P_running P_waiting RUNNING_TO_WAITING t s =
     Inr (qs\<lparr>running := rest,
             waiting := waiting qs @
               [p\<lparr>remaining := remaining p - iofreq p, last_io_start := t\<rparr>],
             written := written qs @ [(file_of s, (t, pid p, RUNNING_STATE, WAITING_STATE))]\<rparr>) \<and>
   execute_move (qs\<lparr>running := p # rest\<rparr>) P_running P_terminated RUNNING_TO_TERMINATED t s =
     Inr (qs\<lparr>running := rest, terminated := terminated qs @ [p\<lparr>remaining := 0\<rparr>],
             written := written qs @
               [(file_of s, (t, pid p, RUNNING_STATE, TERMINATED_STATE))]\<rparr>) \<and>
   resort FCFS_SORT q = q \<and>
   resort SJF_SORT q = g_queue_sort q sort_sjf \<and>
   resort SRTF_SORT q = g_queue_sort q sort_srtf \<and>
   mset (resort s q) = mset q \<and>
   ((\<forall>x \<in> set q. 0 \<le>s total' x) \<longrightarrow> ordered_by total' (resort SJF_SORT q)) \<and>
   ((\<forall>x \<in> set q. 0 \<le>s remaining x) \<longrightarrow> ordered_by remaining (resort SRTF_SORT q))"
proof (intro conjI impI)
  show "execute_move (qs\<lparr>all := p # rest\<rparr>) P_all P_ready NEW_TO_READY t s =
     Inr (qs\<lparr>all := rest, ready := resort s (ready qs @ [p]),
             written := written qs @ [(file_of s, (t, pid p, NEW_STATE, READY_STATE))]\<rparr>)"
    by (simp add: exec_N2R)
  show "execute_move (qs\<lparr>waiting := p # rest\<rparr>) P_waiting P_ready WAITING_TO_READY t s =
     Inr (qs\<lparr>waiting := rest, ready := resort s (ready qs @ [p]),
             written := written qs @ [(file_of s, (t, pid p, WAITING_STATE, READY_STATE))]\<rparr>)"
    by (simp add: exec_W2R)
  show "execute_move (qs\<lparr>running := p # rest\<rparr>) P_running P_ready RUNNING_TO_READY t s =
     Inr (qs\<lparr>running := rest,
             ready := resort s (ready qs @ [p\<lparr>remaining := remaining p - rr p\<rparr>]),
             written := written qs @ [(file_of s, (t, pid p, RUNNING_STATE, READY_STATE))]\<rparr>)"
    by (simp add: exec_R2R)
  show "execute_move (qs\<lparr>ready := p # rest, running := []\<rparr>) P_ready P_running
       READY_TO_RUNNING t s =
     Inr (qs\<lparr>ready := rest, running := [p\<lparr>last_start := t\<rparr>],
             written := written qs @ [(file_of s, (t, pid p, READY_STATE, RUNNING_STATE))]\<rparr>)"
    by (simp add: exec_Rdy2Run)
  show "execute_move (qs\<lparr>running := p # rest\<rparr>) P_running P_waiting RUNNING_TO_WAITING t s =
     Inr (qs\<lparr>running := rest,
             waiting := waiting qs @
               [p\<lparr>remaining := remaining p - iofreq p, last_io_start := t\<rparr>],
             written := written qs @ [(file_of s, (t, pid p, RUNNING_STATE, WAITING_STATE))]\<rparr>)"
    by (simp add: exec_R2W)
  show "execute_move (qs\<lparr>running := p # rest\<rparr>) P_running P_terminated
       RUNNING_TO_TERMINATED t s =
     Inr (qs\<lparr>running := rest, terminated := terminated qs @ [p\<lparr>remaining := 0\<rparr>],
             written := written qs @
               [(file_of s, (t, pid p, RUNNING_STATE, TERMINATED_STATE))]\<rparr>)"
    by (simp add: exec_R2T)
  show "resort FCFS_SORT q = q" "resort SJF_SORT q = g_queue_sort q sort_sjf"
    "resort SRTF_SORT q = g_queue_sort q sort_srtf"
    by (simp_all add: resort_def)
  show "mset (resort s q) = mset q" by (rule mset_resort)
next
  assume "\<forall>x \<in> set q. 0 \<le>s total' x"
  then show "ordered_by total' (resort SJF_SORT q)"
    by (simp add: resort_def ordered_by_sjf)
next
  assume "\<forall>x \<in> set q. 0 \<le>s remaining x"
  then show "ordered_by remaining (resort SRTF_SORT q)"
    by (simp add: resort_def ordered_by_srtf)
qed

theorem ready_sorted_only_under_SJF_SRTF_witness:
  "resort FCFS_SORT long_short = long_short \<and>
   \<not> ordered_by total' long_short \<and> \<not> ordered_by remaining long_short \<and>
   list_all (\<lambda>x. 0 \<le>s total' x) long_short \<and>
   ordered_by total' (resort SJF_SORT long_short) \<and>
   list_all (\<lambda>x. 0 \<le>s remaining x) long_short \<and>
   ordered_by remaining (resort SRTF_SORT long_short) \<and>
   resort SJF_SORT long_short = rev long_short \<and>
   execute_move (idle_state\<lparr>running := [mk 3 0 9 2147483647 2147483647 8 0 0 2]\<rparr>)
       P_running P_ready RUNNING_TO_READY 2 FCFS_SORT =
     Inr (idle_state\<lparr>running := [],
            ready := resort FCFS_SORT (ready idle_state @
              [(mk 3 0 9 2147483647 2147483647 8 0 0 2)
                 \<lparr>remaining := remaining (mk 3 0 9 2147483647 2147483647 8 0 0 2)
                                 - rr (mk 3 0 9 2147483647 2147483647 8 0 0 2)\<rparr>]),
            written := written idle_state @
              [(file_of FCFS_SORT,
                (2, pid (mk 3 0 9 2147483647 2147483647 8 0 0 2), RUNNING_STATE, READY_STATE))]\<rparr>)"
proof -
  have h1: "\<forall>x \<in> set long_short. 0 \<le>s total' x"
    by (simp add: long_short_def mk_def sle_sint)
  have h2: "\<forall>x \<in> set long_short. 0 \<le>s remaining x"
    by (simp add: long_short_def mk_def sle_sint)
  have h3: "\<not> ordered_by total' long_short" "\<not> ordered_by remaining long_short"
    by (simp_all add: ordered_by_def long_short_def mk_def sle_sint)
  have h4: "g_queue_sort long_short sort_sjf = rev long_short"
    by (simp add: long_short_def mk_def g_queue_sort_def g_list_sort_real.simps sort_sjf_def
        sle_sint)
  note T = ready_sorted_only_under_SJF_SRTF [where q = long_short and qs = idle_state
      and p = "mk 3 0 9 2147483647 2147483647 8 0 0 2" and rest = "[]" and t = 2
      and s = FCFS_SORT]
  from T have "resort SJF_SORT long_short = g_queue_sort long_short sort_sjf" by blast
  with h4 have h5: "resort SJF_SORT long_short = rev long_short" by simp
  from T h1 h2 h3 h5 show ?thesis unfolding list_all_iff by blast
qed

section \<open>A single CPU\<close>

lemma running_step:
  assumes "get_next_move qs t s = Inr (t', qs')" and "length (running qs) \<le> 1"
  shows "length (running qs') \<le> 1"
  using assms by (cases rule: step_cases) simp_all

text \<open>
  C7. In every state that the driver loop reaches from a state with all processes in New,
  Running holds at most one process. The candidate time of ready to running is finite only
  when Running is empty.
\<close>

theorem running_at_most_one:
  assumes "initial qs0" and "run s qs0 (t, qs)"
  shows "length (running qs) \<le> 1 \<and>
         (\<forall>raw. event_times qs t = Inr raw \<and> ready_to_running (sanitize raw) \<noteq> INT_MAX
            \<longrightarrow> running qs = [])"
proof
  from assms(2) show "length (running qs) \<le> 1"
  proof (induction "(t, qs)" arbitrary: t qs rule: run.induct)
    case start
    from assms(1) show ?case by (simp add: initial_def)
  next
    case (step t qs t' qs')
    from step(3) step(2) show ?case by (rule running_step)
  qed
  show "\<forall>raw. event_times qs t = Inr raw \<and> ready_to_running (sanitize raw) \<noteq> INT_MAX
          \<longrightarrow> running qs = []"
  proof (intro allI impI)
    fix raw
    assume a: "event_times qs t = Inr raw \<and> ready_to_running (sanitize raw) \<noteq> INT_MAX"
    then have "ready_to_running (cand qs t) \<noteq> INT_MAX"
      using event_times_raw [of qs t raw] by simp
    then show "running qs = []"
      by (simp add: cand_simps(2) split: if_splits)
  qed
qed

theorem running_at_most_one_witness:
  "initial short_io_0 \<and> run FCFS_SORT short_io_0 (0, short_io_2) \<and>
   length (running short_io_2) \<le> 1 \<and>
   run FCFS_SORT short_io_0 (0, short_io_1) \<and>
   event_times short_io_1 0 = Inr short_io_1_raw \<and>
   ready_to_running (sanitize short_io_1_raw) \<noteq> INT_MAX \<and>
   running short_io_1 = []"
proof -
  have h1: "event_times short_io_1 0 = Inr short_io_1_raw"
    by (simp add: event_times_eq raw_times_def short_io_1_def short_io_1_raw_def head_or_def
        mk_def MAX'_def sless_sint)
  have h2: "ready_to_running (sanitize short_io_1_raw) \<noteq> INT_MAX"
    by (simp add: short_io_1_raw_def sanitize_def sanitize1_def sless_sint INT_MAX_def)
  from running_at_most_one [OF short_io_initial short_io_run2]
    running_at_most_one [OF short_io_initial short_io_run1]
    short_io_initial short_io_run1 short_io_run2 h1 h2
  show ?thesis by blast
qed

section \<open>The burst that is left to a process\<close>

text \<open>
  C8, as the code has it. For the processes that \<^verbatim>\<open>load\<close> puts into New, \<^verbatim>\<open>remaining\<close> is
  \<^verbatim>\<open>total\<close>. In every state of the run, \<open>0 \<le> remaining \<le> total\<close> holds of every process
  and \<^verbatim>\<open>remaining\<close> is 0 for every process in Terminated. Each call that executes a
  transition changes one process, whose \<^verbatim>\<open>remaining\<close> does not grow, and no other.
\<close>

theorem remaining_burst_bounds:
  assumes "load lines = Inr qs0" and "run s qs0 (t, qs)"
  shows "(\<forall>p \<in> set (procs qs0). remaining p = total' p) \<and>
         (\<forall>p \<in> set (procs qs). 0 \<le>s remaining p \<and> remaining p \<le>s total' p) \<and>
         (\<forall>p \<in> set (terminated qs). remaining p = 0) \<and>
         (\<forall>t' qs'. get_next_move qs t s = Inr (t', qs') \<and> t' \<noteq> INVALID_MOVE \<longrightarrow>
            (\<exists>p p'. one_changed qs qs' p p'))"
proof -
  note i = load_initial [OF assms(1)]
  have "\<forall>p \<in> set (procs qs0). remaining p = total' p"
    using i(1,2) by (auto simp: procs_def initial_def well_formed_def)
  moreover have inv: "burst_inv qs" using i(1,2) assms(2) by (rule burst_inv_run)
  moreover have "\<forall>t' qs'. get_next_move qs t s = Inr (t', qs') \<and> t' \<noteq> INVALID_MOVE \<longrightarrow>
      (\<exists>p p'. one_changed qs qs' p p')"
    using inv burst_step by blast
  ultimately show ?thesis by (simp add: burst_inv_def burst_ok_def)
qed

theorem remaining_burst_bounds_witness:
  "load [(fresh_block, (1, 0, 2, 2, 1, 0))] = Inr short_io_0 \<and>
   run FCFS_SORT short_io_0 (0, short_io_2) \<and>
   list_all (\<lambda>p. remaining p = total' p) (procs short_io_0) \<and>
   list_all (\<lambda>p. 0 \<le>s remaining p \<and> remaining p \<le>s total' p) (procs short_io_2) \<and>
   get_next_move short_io_2 0 FCFS_SORT = Inr (2, short_io_3) \<and> 2 \<noteq> INVALID_MOVE \<and>
   (\<exists>p p'. one_changed short_io_2 short_io_3 p p')"
proof -
  have h: "(2 :: int32) \<noteq> INVALID_MOVE" by (simp add: INVALID_MOVE_def)
  from remaining_burst_bounds [OF short_io_load short_io_run2] short_io_load short_io_run2
    short_io_step3 h
  show ?thesis unfolding list_all_iff by blast
qed

text \<open>
  C8 as stated fails: the input line \<^verbatim>\<open>1,0,2,2,1,0\<close> brings the process into Waiting at
  time 2 with nothing left, while Terminated is empty.
\<close>

theorem remaining_zero_before_terminated:
  "load [(fresh_block, (1, 0, 2, 2, 1, 0))] = Inr short_io_0 \<and>
   run FCFS_SORT short_io_0 (2, short_io_3) \<and>
   waiting short_io_3 = [mk 1 0 2 2 1 0 0 2 2147483647] \<and>
   remaining (mk 1 0 2 2 1 0 0 2 2147483647) = 0 \<and>
   terminated short_io_3 = []"
  using short_io_load short_io_run3 by (simp add: short_io_3_def mk_def)

section \<open>The order of the event times\<close>

text \<open>
  C9 fails on the code. The two input lines \<^verbatim>\<open>1,0,10,3,1,50\<close> and \<^verbatim>\<open>2,0,10,2,100,50\<close> give a
  well-formed state sorted by arrival, from which the seventh call of \<^verbatim>\<open>get_next_move\<close>
  returns 102 and the eighth, called with 102, returns 6: only the head of Waiting is
  looked at, and the process behind it finished its I/O long before.
\<close>

theorem event_time_decreases:
  "load [(fresh_block, (1, 0, 10, 3, 1, 50)), (fresh_block, (2, 0, 10, 2, 100, 50))]
     = Inr two_io_0 \<and>
   initial two_io_0 \<and> list_all well_formed (all two_io_0) \<and> ordered_by start (all two_io_0) \<and>
   run FCFS_SORT two_io_0 (102, two_io_7) \<and>
   get_next_move two_io_7 102 FCFS_SORT = Inr (6, two_io_8) \<and>
   (6 :: int32) <s 102"
proof -
  have "list_all well_formed (all two_io_0)"
    using load_initial(2) [OF two_io_load] by (simp add: list_all_iff)
  moreover have "ordered_by start (all two_io_0)"
    by (simp add: ordered_by_def two_io_0_def mk_def sle_sint)
  moreover have "(6 :: int32) <s 102" by (simp add: sless_sint)
  ultimately show ?thesis
    using two_io_load load_initial(1) [OF two_io_load] two_io_run7 two_io_step8 by simp
qed

section \<open>An event at the largest time\<close>

lemma left_behind_step:
  assumes "get_next_move qs t s = Inr (t', qs')" and "left_behind qs0 qs"
  shows "left_behind qs0 qs'"
  using assms(1)
proof (cases rule: step_cases)
  case Done
  with assms(2) show ?thesis by simp
next
  case (W2R p rest)
  with assms(2) show ?thesis by (auto simp: left_behind_def set_resort)
next
  case (N2R p rest)
  have "start p \<noteq> INT_MAX"
    using N2R(3,4) by (auto simp: sanitize1_INT_MAX)
  with N2R assms(2) show ?thesis by (auto simp: left_behind_def set_resort)
next
  case (R2R p rest)
  with assms(2) show ?thesis by (auto simp: left_behind_def set_resort)
next
  case (R2W p rest)
  with assms(2) show ?thesis by (auto simp: left_behind_def)
next
  case (R2T p rest)
  with assms(2) show ?thesis by (auto simp: left_behind_def)
next
  case (Rdy2Run p rest)
  with assms(2) show ?thesis by (auto simp: left_behind_def)
qed

lemma left_behind_run:
  assumes "initial qs0" and "written qs0 = []" and "run s qs0 (t, qs)"
  shows "left_behind qs0 qs"
  using assms(3)
proof (induction "(t, qs)" arbitrary: t qs rule: run.induct)
  case start
  from assms(1,2) show ?case by (simp add: left_behind_def initial_def)
next
  case (step t qs t' qs')
  from step(3) step(2) show ?case by (rule left_behind_step)
qed

text \<open>
  C10. When the least candidate time is \<^verbatim>\<open>INT_MAX\<close>, \<^verbatim>\<open>get_next_move\<close> returns
  \<^verbatim>\<open>INVALID_MOVE\<close> and changes nothing, whatever is due at that time. So in every state of
  a run that began with empty files and all processes in New, no logged line has the time
  \<^verbatim>\<open>INT_MAX\<close>, and the processes that arrive at \<^verbatim>\<open>INT_MAX\<close> are all still in New, none of
  them in another queue.
\<close>

theorem completion_at_INT_MAX:
  assumes "initial qs0" and "written qs0 = []" and "run s qs0 (t, qs)"
  shows "(\<forall>raw. 0 \<le>s t \<and> event_times qs t = Inr raw \<and> minimum (sanitize raw) = INT_MAX \<longrightarrow>
            get_next_move qs t s = Inr (INVALID_MOVE, qs)) \<and>
         (\<forall>l \<in> set (written qs). fst (snd l) \<noteq> INT_MAX) \<and>
         filter (\<lambda>p. start p = INT_MAX) (all qs) = filter (\<lambda>p. start p = INT_MAX) (all qs0) \<and>
         (\<forall>p \<in> set (ready qs) \<union> set (running qs) \<union> set (waiting qs) \<union> set (terminated qs).
            start p \<noteq> INT_MAX)"
proof -
  have "\<forall>raw. 0 \<le>s t \<and> event_times qs t = Inr raw \<and> minimum (sanitize raw) = INT_MAX \<longrightarrow>
          get_next_move qs t s = Inr (INVALID_MOVE, qs)"
  proof (intro allI impI)
    fix raw
    assume a: "0 \<le>s t \<and> event_times qs t = Inr raw \<and> minimum (sanitize raw) = INT_MAX"
    then have "select_move (cand qs t) (minimum (cand qs t)) = None"
      using event_times_raw [of qs t raw] by (simp add: select_move_def)
    with a show "get_next_move qs t s = Inr (INVALID_MOVE, qs)"
      by (simp add: get_next_move_unfold)
  qed
  moreover have "left_behind qs0 qs" using assms by (rule left_behind_run)
  ultimately show ?thesis by (simp add: left_behind_def)
qed

lemma late_state_times: "event_times late_state 0 = Inr late_raw"
  by (simp add: event_times_eq raw_times_def late_state_def late_raw_def head_or_def mk_def
      INT_MAX_def)

lemma late_state_load: "load [(fresh_block, (1, 2147483647, 5, 0, 0, 0))] = Inr late_state"
  by (simp add: eval_load fresh_block_def late_state_def)

theorem completion_at_INT_MAX_witness:
  "initial late_state \<and> written late_state = [] \<and>
   run FCFS_SORT late_state (INITIAL_TIME, late_state) \<and>
   0 \<le>s INITIAL_TIME \<and> event_times late_state INITIAL_TIME = Inr late_raw \<and>
   minimum (sanitize late_raw) = INT_MAX \<and>
   get_next_move late_state INITIAL_TIME FCFS_SORT = Inr (INVALID_MOVE, late_state) \<and>
   filter (\<lambda>p. start p = INT_MAX) (all late_state) = [mk 1 2147483647 5 2147483647 2147483647 5 0 0 2147483647]"
proof -
  have h1: "initial late_state" by (simp add: initial_def late_state_def)
  have h2: "written late_state = []" by (simp add: late_state_def)
  have h3: "run FCFS_SORT late_state (INITIAL_TIME, late_state)" by (rule run.start)
  have h4: "0 \<le>s INITIAL_TIME" by (simp add: INITIAL_TIME_def sle_sint)
  have h5: "event_times late_state INITIAL_TIME = Inr late_raw"
    using late_state_times by (simp add: INITIAL_TIME_def)
  have h6: "minimum (sanitize late_raw) = INT_MAX"
    by (simp add: late_raw_def minimum_def sanitize_def sanitize1_def MIN'_def INT_MAX_def
        sless_sint)
  have h7: "filter (\<lambda>p. start p = INT_MAX) (all late_state) =
      [mk 1 2147483647 5 2147483647 2147483647 5 0 0 2147483647]"
    by (simp add: late_state_def mk_def INT_MAX_def)
  from completion_at_INT_MAX [OF h1 h2 h3] h1 h2 h3 h4 h5 h6 h7
  show ?thesis by blast
qed

end
